theory Spec2Isabelle
  imports Complex_Main "HOL-Library.Sublist"
begin

section \<open>Data model of the recorder (content.js)\<close>

text \<open>
  JavaScript numbers that hold clock readings and pixel offsets are modelled as \<open>int\<close>;
  the playback speed is a \<open>rat\<close>, and the arithmetic on it is that of doubles.
  A field that may hold \<open>null\<close> is an \<open>option\<close>. The fields \<open>type\<close>, \<open>value\<close> and
  \<open>id\<close> of the source are written \<open>atype\<close>, \<open>avalue\<close> and \<open>sid\<close>; the page's
  \<open>timestamp\<close> and \<open>actions\<close> are \<open>ptimestamp\<close> and \<open>pactions\<close>.
\<close>

record point =
  px :: int
  py :: int

record coords =
  cx :: int
  cy :: int
  pageX :: int
  pageY :: int
  elementBox :: "(int \<times> int \<times> int \<times> int) option"

record action =
  atype :: string
  timestamp :: int
  target :: "string option"
  coordinates :: coords
  key :: "string option"
  avalue :: "string option"
  scrollPosition :: point
  scrollStart :: "point option"
  viewport :: point

record page =
  url :: string
  title :: string
  ptimestamp :: int
  endTime :: "int option"
  pactions :: "action list"

text \<open>
  \<open>startPageRecording\<close> pushes the object \<open>currentPageData\<close> itself into
  \<open>currentSession.pages\<close> and keeps mutating it afterwards. The slot \<open>Current\<close> stands
  for that alias; \<open>Closed p\<close> is a page object no recorder field points to any more.
\<close>

datatype page_slot = Closed page | Current

record session =
  sid :: string
  startTime :: int
  pages :: "page_slot list"

record settings =
  speed :: rat
  showRecordingIndicator :: bool
  elementDetection :: string
  debugMode :: bool
  maxRetries :: int

text \<open>
  A pending \<open>setTimeout\<close> is the clock reading at which it becomes due. The callback of
  the scroll timer closes over \<open>currentScrollPosition\<close>, so that value is stored with it.
\<close>

record recorder =
  isRecording :: bool
  currentSession :: "session option"
  currentPageData :: "page option"
  lastRecordedAction :: "action option"
  actionDebounceTimeout :: "int option"
  recordingQueue :: "action list"
  isProcessingQueue :: bool
  scrollStartPosition :: "point option"
  extensionContextValid :: bool
  scrollTimeout :: "(int \<times> point) option"
  isScrolling :: bool
  rsettings :: settings
  actionsRecorded :: nat
  metricsStart :: "int option"
  listenersAttached :: bool
  indicatorShown :: bool
  sessionUpdatesSent :: nat

text \<open>What a handler reads from the browser when it runs.\<close>

record env =
  now :: int
  href :: string
  docTitle :: string
  windowScroll :: point
  windowInner :: point
  chromeRuntime :: bool

section \<open>String helpers\<close>

text \<open>\<open>String.prototype.includes\<close>: the argument occurs as a contiguous substring.\<close>

fun str_includes :: "string \<Rightarrow> string \<Rightarrow> bool" where
  "str_includes [] sub = (sub = [])"
| "str_includes (c # cs) sub = (prefix sub (c # cs) \<or> str_includes cs sub)"

section \<open>Starting and continuing a recording\<close>

definition updateBackgroundSession :: "env \<Rightarrow> recorder \<Rightarrow> recorder" where
  "updateBackgroundSession e s =
     (if \<not> chromeRuntime e \<or> \<not> extensionContextValid s
      then s\<lparr>extensionContextValid := False\<rparr>
      else s\<lparr>sessionUpdatesSent := Suc (sessionUpdatesSent s)\<rparr>)"

definition showIndicator :: "recorder \<Rightarrow> recorder" where
  "showIndicator s =
     (if \<not> showRecordingIndicator (rsettings s) then s else s\<lparr>indicatorShown := True\<rparr>)"

definition startPageRecording :: "env \<Rightarrow> recorder \<Rightarrow> recorder" where
  "startPageRecording e s =
     (let s1 = s\<lparr>currentPageData :=
                   Some \<lparr>url = href e, title = docTitle e, ptimestamp = now e,
                         endTime = None, pactions = []\<rparr>,
                 listenersAttached := True\<rparr>
      in case currentSession s1 of
           None \<Rightarrow> s1
         | Some ses \<Rightarrow>
             updateBackgroundSession e
               (s1\<lparr>currentSession := Some (ses\<lparr>pages := pages ses @ [Current]\<rparr>)\<rparr>))"

text \<open>\<open>Date.now().toString()\<close> is left to a parameter \<open>show_time\<close>.\<close>

definition startRecording :: "(int \<Rightarrow> string) \<Rightarrow> env \<Rightarrow> recorder \<Rightarrow> recorder" where
  "startRecording show_time e s =
     (if isRecording s then s
      else showIndicator
             (startPageRecording e
                (s\<lparr>isRecording := True,
                   currentSession := Some \<lparr>sid = show_time (now e), startTime = now e, pages = []\<rparr>,
                   actionsRecorded := 0,
                   metricsStart := Some (now e)\<rparr>)))"

definition continueRecording :: "env \<Rightarrow> session option \<Rightarrow> recorder \<Rightarrow> recorder" where
  "continueRecording e ses s =
     (if isRecording s then s
      else showIndicator
             (startPageRecording e (s\<lparr>isRecording := True, currentSession := ses\<rparr>)))"

section \<open>Deduplication and the debounced queue\<close>

definition isDuplicateAction :: "recorder \<Rightarrow> action \<Rightarrow> bool" where
  "isDuplicateAction s newAction =
     (case lastRecordedAction s of
        None \<Rightarrow> False
      | Some lastA \<Rightarrow>
          (let timeDiff = timestamp newAction - timestamp lastA in
           if atype newAction = ''scroll'' then
             (if atype lastA = ''scroll'' \<and> timeDiff < 200
              then \<bar>px (scrollPosition newAction) - px (scrollPosition lastA)\<bar> < 20
                 \<and> \<bar>py (scrollPosition newAction) - py (scrollPosition lastA)\<bar> < 20
              else False)
           else if atype newAction = ''mousemove'' then
             (if atype lastA = ''mousemove'' \<and> timeDiff < 50
              then \<bar>cx (coordinates newAction) - cx (coordinates lastA)\<bar> < 5
                 \<and> \<bar>cy (coordinates newAction) - cy (coordinates lastA)\<bar> < 5
              else False)
           else if atype newAction = ''input'' then
             (atype lastA = ''input'' \<and> target lastA = target newAction \<and> timeDiff < 50)
           else if atype newAction = ''keydown'' \<or> atype newAction = ''keyup'' then
             (atype lastA = atype newAction \<and> key lastA = key newAction \<and> timeDiff < 30)
           else False))"

definition getDebounceDelay :: "string \<Rightarrow> int" where
  "getDebounceDelay actionType =
     (if actionType = ''scroll'' then 300
      else if actionType = ''input'' then 100
      else if actionType = ''mousemove'' then 200
      else if actionType = ''resize'' then 300
      else 50)"

text \<open>
  \<open>queueAction\<close>: a duplicate is dropped before it is queued; otherwise the action is
  appended and the single debounce timer is re-armed.
\<close>

definition queueAction :: "env \<Rightarrow> action \<Rightarrow> recorder \<Rightarrow> recorder" where
  "queueAction e a s =
     (if isDuplicateAction s a then s
      else s\<lparr>recordingQueue := recordingQueue s @ [a],
             actionDebounceTimeout := Some (now e + getDebounceDelay (atype a))\<rparr>)"

text \<open>
  A call either returns or throws; in both cases the mutations made so far stay.
\<close>

datatype 'a outcome = Returned 'a | Threw 'a

fun outcome_state :: "'a outcome \<Rightarrow> 'a" where
  "outcome_state (Returned s) = s"
| "outcome_state (Threw s) = s"

text \<open>
  The \<open>while\<close> loop of \<open>processRecordingQueue\<close>: \<open>shift\<close> the head, check it again
  against the last recorded action, push it on the current page. The push throws a
  \<open>TypeError\<close> when \<open>currentPageData\<close> is \<open>null\<close>.
\<close>

fun flushQueue :: "action list \<Rightarrow> recorder \<Rightarrow> recorder outcome" where
  "flushQueue [] s = Returned s"
| "flushQueue (a # q) s =
     (let s1 = s\<lparr>recordingQueue := q\<rparr> in
      if \<not> isDuplicateAction s1 a then
        (case currentPageData s1 of
           None \<Rightarrow> Threw s1
         | Some p \<Rightarrow>
             flushQueue q
               (s1\<lparr>currentPageData := Some (p\<lparr>pactions := pactions p @ [a]\<rparr>),
                   actionsRecorded := Suc (actionsRecorded s1),
                   lastRecordedAction := Some a\<rparr>))
      else flushQueue q s1)"

definition processRecordingQueue :: "env \<Rightarrow> recorder \<Rightarrow> recorder outcome" where
  "processRecordingQueue e s =
     (if isProcessingQueue s \<or> recordingQueue s = [] then Returned s
      else case flushQueue (recordingQueue s) (s\<lparr>isProcessingQueue := True\<rparr>) of
             Threw s' \<Rightarrow> Threw s'
           | Returned s' \<Rightarrow>
               Returned (updateBackgroundSession e (s'\<lparr>isProcessingQueue := False\<rparr>)))"

section \<open>Normalising a DOM event into an action\<close>

text \<open>
  What \<open>recordAction\<close> reads from the event: the selector derived for the event target,
  the pointer coordinates, the key, the target's value and its bounding rectangle
  (left, top, width, height) when it has one.
\<close>

record dom_event =
  evSelector :: "string option"
  clientX :: int
  clientY :: int
  evPageX :: int
  evPageY :: int
  evKey :: "string option"
  evValue :: "string option"
  evRect :: "(int \<times> int \<times> int \<times> int) option"

text \<open>\<open>v || null\<close> on a string or \<open>null\<close>: the empty string is falsy.\<close>

definition or_null :: "string option \<Rightarrow> string option" where
  "or_null v = (if v = Some [] then None else v)"

text \<open>The action object \<open>recordAction\<close> builds, given the current page's \<open>timestamp\<close>.\<close>

definition mkAction :: "string \<Rightarrow> dom_event \<Rightarrow> env \<Rightarrow> int \<Rightarrow> action" where
  "mkAction ty ev e pageTimestamp =
     \<lparr>atype = ty,
      timestamp = now e - pageTimestamp,
      target = evSelector ev,
      coordinates =
        \<lparr>cx = clientX ev, cy = clientY ev, pageX = evPageX ev, pageY = evPageY ev,
         elementBox =
           (if ty = ''click'' \<or> ty = ''dblclick'' then
              (case evRect ev of
                 None \<Rightarrow> None
               | Some (rl, rt, w, h) \<Rightarrow> Some (clientX ev - rl, clientY ev - rt, w, h))
            else None)\<rparr>,
      key = or_null (evKey ev),
      avalue = or_null (evValue ev),
      scrollPosition = windowScroll e,
      scrollStart = None,
      viewport = windowInner e\<rparr>"

definition recordAction :: "string \<Rightarrow> dom_event \<Rightarrow> env \<Rightarrow> recorder \<Rightarrow> recorder" where
  "recordAction ty ev e s =
     (if \<not> isRecording s then s
      else if \<not> extensionContextValid s then s\<lparr>isRecording := False\<rparr>
      else case currentPageData s of
             None \<Rightarrow> s
           | Some p \<Rightarrow> queueAction e (mkAction ty ev e (ptimestamp p)) s)"

section \<open>Scroll coalescing\<close>

definition recordScrollAction :: "env \<Rightarrow> recorder \<Rightarrow> recorder" where
  "recordScrollAction e s =
     (if \<not> isRecording s \<or> currentPageData s = None then s
      else
        let currentScrollPosition = windowScroll e;
            s1 = (if \<not> isScrolling s
                  then s\<lparr>isScrolling := True, scrollStartPosition := Some currentScrollPosition\<rparr>
                  else s)
        in s1\<lparr>scrollTimeout := Some (now e + 200, currentScrollPosition)\<rparr>)"

definition mkScrollAction :: "int \<Rightarrow> point \<Rightarrow> point \<Rightarrow> point \<Rightarrow> action" where
  "mkScrollAction ts pos start inner =
     \<lparr>atype = ''scroll'', timestamp = ts, target = Some ''window'',
      coordinates = \<lparr>cx = 0, cy = 0, pageX = 0, pageY = 0, elementBox = None\<rparr>,
      key = None, avalue = None, scrollPosition = pos, scrollStart = Some start,
      viewport = inner\<rparr>"

text \<open>
  The callback of the scroll timer, run by the browser once the 200ms have passed. It
  records the position its closure captured at the last scroll event. Reading a field of
  \<open>null\<close> throws.
\<close>

definition scrollTimerFires :: "env \<Rightarrow> recorder \<Rightarrow> recorder outcome" where
  "scrollTimerFires e s =
     (case scrollTimeout s of
        None \<Rightarrow> Returned s
      | Some (due, currentScrollPosition) \<Rightarrow>
          if now e < due then Returned s
          else
            let s0 = s\<lparr>scrollTimeout := None\<rparr> in
            if \<not> isScrolling s0 then Returned s0
            else case currentPageData s0 of
                   None \<Rightarrow> Threw s0
                 | Some p \<Rightarrow>
                     (case scrollStartPosition s0 of
                        None \<Rightarrow> Threw s0
                      | Some start \<Rightarrow>
                          let scrollAction =
                                mkScrollAction (now e - ptimestamp p) currentScrollPosition start
                                  (windowInner e);
                              scrollDistanceX = \<bar>px currentScrollPosition - px start\<bar>;
                              scrollDistanceY = \<bar>py currentScrollPosition - py start\<bar>;
                              s1 = (if scrollDistanceX > 5 \<or> scrollDistanceY > 5
                                    then updateBackgroundSession e
                                           (s0\<lparr>currentPageData :=
                                                 Some (p\<lparr>pactions := pactions p @ [scrollAction]\<rparr>),
                                               lastRecordedAction := Some scrollAction\<rparr>)
                                    else s0)
                          in Returned (s1\<lparr>isScrolling := False, scrollStartPosition := None\<rparr>)))"

text \<open>
  The callback of the debounce timer. An exception of the flush is caught there and
  switches the recorder off.
\<close>

definition debounceTimerFires :: "env \<Rightarrow> recorder \<Rightarrow> recorder" where
  "debounceTimerFires e s =
     (case actionDebounceTimeout s of
        None \<Rightarrow> s
      | Some due \<Rightarrow>
          if now e < due then s
          else
            let s0 = s\<lparr>actionDebounceTimeout := None\<rparr> in
            if \<not> extensionContextValid s0 \<or> \<not> chromeRuntime e
            then s0\<lparr>extensionContextValid := False, isRecording := False\<rparr>
            else case processRecordingQueue e s0 of
                   Returned s' \<Rightarrow> s'
                 | Threw s' \<Rightarrow> s'\<lparr>extensionContextValid := False, isRecording := False\<rparr>)"

section \<open>Stopping\<close>

definition removeEventListeners :: "env \<Rightarrow> recorder \<Rightarrow> recorder outcome" where
  "removeEventListeners e s =
     (let s1 = s\<lparr>listenersAttached := False, actionDebounceTimeout := None,
                 scrollTimeout := None\<rparr>;
          r2 =
            (if isScrolling s1 then
               (let currentScrollPosition = windowScroll e;
                    r = (case scrollStartPosition s1 of
                           None \<Rightarrow> Returned s1
                         | Some start \<Rightarrow>
                             if \<bar>px currentScrollPosition - px start\<bar> > 5
                              \<or> \<bar>py currentScrollPosition - py start\<bar> > 5
                             then (case currentPageData s1 of
                                     None \<Rightarrow> Threw s1
                                   | Some p \<Rightarrow>
                                       Returned
                                         (s1\<lparr>currentPageData :=
                                               Some (p\<lparr>pactions := pactions p @
                                                 [mkScrollAction (now e - ptimestamp p)
                                                    currentScrollPosition start (windowInner e)]\<rparr>)\<rparr>))
                             else Returned s1)
                in case r of
                     Threw s' \<Rightarrow> Threw s'
                   | Returned s' \<Rightarrow>
                       Returned (s'\<lparr>isScrolling := False, scrollStartPosition := None\<rparr>))
             else Returned s1)
      in case r2 of
           Threw s' \<Rightarrow> Threw s'
         | Returned s2 \<Rightarrow>
             if recordingQueue s2 \<noteq> [] then processRecordingQueue e s2 else Returned s2)"

definition close_slots :: "page option \<Rightarrow> session \<Rightarrow> session" where
  "close_slots cur ses =
     ses\<lparr>pages := concat (map (\<lambda>sl. case sl of
                                      Closed p \<Rightarrow> [Closed p]
                                    | Current \<Rightarrow> (case cur of None \<Rightarrow> [] | Some p \<Rightarrow> [Closed p]))
                            (pages ses))\<rparr>"

text \<open>
  \<open>stopRecording\<close> returns the session object; the model returns it with the aliased
  page written out as it is at that moment.
\<close>

definition stopRecording :: "env \<Rightarrow> recorder \<Rightarrow> (session option \<times> recorder) outcome" where
  "stopRecording e s =
     (if \<not> isRecording s then Returned (None, s)
      else case removeEventListeners e (s\<lparr>isRecording := False\<rparr>) of
             Threw s' \<Rightarrow> Threw (None, s')
           | Returned s1 \<Rightarrow>
               let s2 = s1\<lparr>indicatorShown := False,
                           currentPageData :=
                             map_option (\<lambda>p. p\<lparr>endTime := Some (now e)\<rparr>) (currentPageData s1)\<rparr>;
                   sessionToReturn = map_option (close_slots (currentPageData s2)) (currentSession s2)
               in Returned (sessionToReturn,
                            s2\<lparr>recordingQueue := [], currentSession := None,
                               currentPageData := None\<rparr>))"

section \<open>The recorder as an event-driven machine\<close>

text \<open>
  The listeners attached by \<open>addEventListeners\<close>, and the two timer callbacks. Every
  event comes with what the browser shows at that moment. An exception that escapes a
  listener or a timer callback is reported by the browser and the state stays as mutated.
\<close>

datatype event =
    Click dom_event | DblClick dom_event | KeyDown dom_event | KeyUp dom_event
  | Input dom_event | Change dom_event | Submit dom_event | Resize dom_event
  | Scroll | DebounceTimer | ScrollTimer

fun listener_type :: "event \<Rightarrow> (string \<times> dom_event) option" where
  "listener_type (Click ev) = Some (''click'', ev)"
| "listener_type (DblClick ev) = Some (''dblclick'', ev)"
| "listener_type (KeyDown ev) = Some (''keydown'', ev)"
| "listener_type (KeyUp ev) = Some (''keyup'', ev)"
| "listener_type (Input ev) = Some (''input'', ev)"
| "listener_type (Change ev) = Some (''change'', ev)"
| "listener_type (Submit ev) = Some (''submit'', ev)"
| "listener_type (Resize ev) = Some (''resize'', ev)"
| "listener_type Scroll = None"
| "listener_type DebounceTimer = None"
| "listener_type ScrollTimer = None"

fun handle :: "env \<times> event \<Rightarrow> recorder \<Rightarrow> recorder" where
  "handle (e, Scroll) s = recordScrollAction e s"
| "handle (e, DebounceTimer) s = debounceTimerFires e s"
| "handle (e, ScrollTimer) s = outcome_state (scrollTimerFires e s)"
| "handle (e, x) s =
     (case listener_type x of
        Some (ty, ev) \<Rightarrow> recordAction ty ev e s
      | None \<Rightarrow> s)"

fun run :: "(env \<times> event) list \<Rightarrow> recorder \<Rightarrow> recorder" where
  "run [] s = s"
| "run (x # xs) s = run xs (handle x s)"

text \<open>The state the constructor of \<open>SessionRecorder\<close> builds.\<close>

definition defaultSettings :: settings where
  "defaultSettings =
     \<lparr>speed = 1, showRecordingIndicator = True, elementDetection = ''flexible'',
      debugMode = False, maxRetries = 3\<rparr>"

definition newRecorder :: recorder where
  "newRecorder =
     \<lparr>isRecording = False, currentSession = None, currentPageData = None,
      lastRecordedAction = None, actionDebounceTimeout = None, recordingQueue = [],
      isProcessingQueue = False, scrollStartPosition = None, extensionContextValid = True,
      scrollTimeout = None, isScrolling = False, rsettings = defaultSettings,
      actionsRecorded = 0, metricsStart = None, listenersAttached = False,
      indicatorShown = False, sessionUpdatesSent = 0\<rparr>"

text \<open>Sample browser readings and events, used where a statement needs concrete input.\<close>

definition env_at :: "int \<Rightarrow> int \<Rightarrow> env" where
  "env_at t y =
     \<lparr>now = t, href = ''https://example.test/'', docTitle = ''Example'',
      windowScroll = \<lparr>px = 0, py = y\<rparr>, windowInner = \<lparr>px = 1280, py = 720\<rparr>,
      chromeRuntime = True\<rparr>"

definition ev_on :: "string \<Rightarrow> dom_event" where
  "ev_on sel =
     \<lparr>evSelector = Some sel, clientX = 100, clientY = 200, evPageX = 100, evPageY = 200,
      evKey = None, evValue = None, evRect = None\<rparr>"

section \<open>The deduplication policy as the specification words it\<close>

text \<open>
  The four cases of the specification, for the last recorded action and the incoming one.
  "Within n ms" is read as: the two relative timestamps are less than n apart.
\<close>

definition duplicate_policy :: "action \<Rightarrow> action \<Rightarrow> bool" where
  "duplicate_policy lastA newA =
     (let apart = \<bar>timestamp newA - timestamp lastA\<bar> in
        (atype newA = ''scroll'' \<and> atype lastA = ''scroll'' \<and> apart < 200
           \<and> \<bar>px (scrollPosition newA) - px (scrollPosition lastA)\<bar> < 20
           \<and> \<bar>py (scrollPosition newA) - py (scrollPosition lastA)\<bar> < 20)
      \<or> (atype newA = ''mousemove'' \<and> atype lastA = ''mousemove'' \<and> apart < 50
           \<and> \<bar>cx (coordinates newA) - cx (coordinates lastA)\<bar> < 5
           \<and> \<bar>cy (coordinates newA) - cy (coordinates lastA)\<bar> < 5)
      \<or> (atype newA = ''input'' \<and> atype lastA = ''input''
           \<and> target lastA = target newA \<and> apart < 50)
      \<or> ((atype newA = ''keydown'' \<or> atype newA = ''keyup'') \<and> atype lastA = atype newA
           \<and> key lastA = key newA \<and> apart < 30))"

text \<open>
  "Flush appends all queued, still-non-duplicate actions": going through a list of
  actions, each one that is a duplicate of the last one kept is dropped.
\<close>

fun dedupe :: "action option \<Rightarrow> action list \<Rightarrow> action list" where
  "dedupe lastA [] = []"
| "dedupe lastA (a # rest) =
     (if (case lastA of None \<Rightarrow> False | Some l \<Rightarrow> duplicate_policy l a)
      then dedupe lastA rest
      else a # dedupe (Some a) rest)"

text \<open>A recorder that has just started recording at clock reading 1000.\<close>

definition sample_recording :: recorder where
  "sample_recording = startRecording (\<lambda>t. ''1000'') (env_at 1000 0) newRecorder"

text \<open>A burst of scroll events, one for each browser reading.\<close>

definition scroll_events :: "env list \<Rightarrow> (env \<times> event) list" where
  "scroll_events es = map (\<lambda>e. (e, Scroll)) es"

section \<open>Playback delay\<close>

subsection \<open>JavaScript numbers\<close>

text \<open>
  The delay is computed in IEEE 754 double precision. A number is given by its exact
  value, or is one of the two infinities or \<open>NaN\<close>; the sign of a zero is not kept.
\<close>

datatype jsnum = Num rat | PosInfinity | NegInfinity | NaN

definition pow2 :: "int \<Rightarrow> rat" where
  "pow2 k = (if 0 \<le> k then 2 ^ nat k else 1 / 2 ^ nat (- k))"

fun bitlen :: "nat \<Rightarrow> nat" where
  "bitlen n = (if n = 0 then 0 else Suc (bitlen (n div 2)))"

declare bitlen.simps [simp del]

text \<open>The exponent \<open>e\<close> with \<open>2^e \<le> a < 2^(e+1)\<close>, for a positive \<open>a\<close>.\<close>

definition ilog2 :: "rat \<Rightarrow> int" where
  "ilog2 a =
     (if 1 \<le> a then int (bitlen (nat \<lfloor>a\<rfloor>)) - 1
      else - int (bitlen (nat (\<lceil>1 / a\<rceil> - 1))))"

definition round_half_even :: "rat \<Rightarrow> int" where
  "round_half_even q =
     (let n = \<lfloor>q\<rfloor>; f = q - of_int n
      in if f < 1 / 2 then n else if 1 / 2 < f then n + 1
         else if even n then n else n + 1)"

text \<open>
  The double nearest to a real, ties going to the even significand: 53 significant
  bits, the spacing below \<open>2^-1022\<close> staying at \<open>2^-1074\<close>, and an infinity from
  \<open>2^1024\<close> on. Every arithmetic operation gives the exact result rounded this way.
\<close>

definition to_double :: "rat \<Rightarrow> jsnum" where
  "to_double x =
     (if x = 0 then Num 0
      else
        let a = \<bar>x\<bar>;
            e = max (ilog2 a) (- 1022);
            ulp = pow2 (e - 52);
            r = of_int (round_half_even (a / ulp)) * ulp
        in if pow2 1024 \<le> r then (if 0 < x then PosInfinity else NegInfinity)
           else Num (if 0 < x then r else - r))"


text \<open>
  \<open>x || 1\<close> takes \<open>x\<close> when it is truthy; \<open>1 / x\<close> is applied to such an \<open>x\<close> only.
  The first factor of the product is an integer below \<open>2^53\<close> in size.
\<close>

definition js_truthy :: "jsnum \<Rightarrow> bool" where
  "js_truthy x = (case x of Num r \<Rightarrow> r \<noteq> 0 | NaN \<Rightarrow> False | other \<Rightarrow> True)"

definition js_recip :: "jsnum \<Rightarrow> jsnum" where
  "js_recip x =
     (case x of
        Num r \<Rightarrow> if r = 0 then PosInfinity else to_double (1 / r)
      | PosInfinity \<Rightarrow> Num 0
      | NegInfinity \<Rightarrow> Num 0
      | NaN \<Rightarrow> NaN)"

definition js_times :: "int \<Rightarrow> jsnum \<Rightarrow> jsnum" where
  "js_times d x =
     (case x of
        Num r \<Rightarrow> to_double (of_int d * r)
      | PosInfinity \<Rightarrow> if 0 < d then PosInfinity else if d < 0 then NegInfinity else NaN
      | NegInfinity \<Rightarrow> if 0 < d then NegInfinity else if d < 0 then PosInfinity else NaN
      | NaN \<Rightarrow> NaN)"

text \<open>\<open>Math.round\<close>: the nearest integer, a half going up. \<open>Math.max(x, m)\<close>.\<close>

definition js_round :: "rat \<Rightarrow> int" where
  "js_round q = \<lfloor>q + 1 / 2\<rfloor>"

definition Math_round :: "jsnum \<Rightarrow> jsnum" where
  "Math_round x = (case x of Num r \<Rightarrow> Num (of_int (js_round r)) | other \<Rightarrow> other)"

definition Math_max :: "jsnum \<Rightarrow> rat \<Rightarrow> jsnum" where
  "Math_max x m =
     (case x of
        Num r \<Rightarrow> Num (max r m)
      | PosInfinity \<Rightarrow> PosInfinity
      | NegInfinity \<Rightarrow> Num m
      | NaN \<Rightarrow> NaN)"

text \<open>
  The delay \<open>setTimeout\<close> takes from its second argument: the number cut to an integer
  and wrapped to 32 bits, anything that is not finite being 0, and a negative delay
  being 0.
\<close>

definition timeout_ms :: "jsnum \<Rightarrow> int" where
  "timeout_ms x =
     (case x of
        Num r \<Rightarrow>
          (let n = (if r < 0 then - \<lfloor>- r\<rfloor> else \<lfloor>r\<rfloor>);
               w = n mod 2 ^ 32;
               i = (if 2 ^ 31 \<le> w then w - 2 ^ 32 else w)
           in max i 0)
      | other \<Rightarrow> 0)"

subsection \<open>The delay before the next action\<close>

text \<open>\<open>action.target?.includes(w)\<close>: false when the target is \<open>null\<close>.\<close>

definition target_includes :: "action \<Rightarrow> string \<Rightarrow> bool" where
  "target_includes a w = (case target a of None \<Rightarrow> False | Some t \<Rightarrow> str_includes t w)"

text \<open>
  The speed setting is a number; the record holds its value as written, and \<open>to_double\<close>
  gives the double the program holds. Timestamps are integers below \<open>2^53\<close> in size, on
  which the subtraction, \<open>Math.max\<close> and \<open>Math.min\<close> are exact.
\<close>

definition calculateOptimalDelay :: "settings \<Rightarrow> action \<Rightarrow> action \<Rightarrow> jsnum" where
  "calculateOptimalDelay st currentAction nextAction =
     (let originalDelay = timestamp nextAction - timestamp currentAction;
          delay0 = max originalDelay 50;
          delay1 =
            (if atype nextAction = ''keyup'' \<or> atype nextAction = ''keydown'' then
               min delay0 150
             else if atype nextAction = ''input'' then
               (if atype currentAction = ''input'' \<or> atype currentAction = ''keydown''
                then min delay0 300 else min delay0 500)
             else if atype nextAction = ''scroll'' then
               (let d = min delay0 100
                in if atype currentAction = ''scroll'' then min d 50 else d)
             else if atype nextAction = ''click'' \<or> atype nextAction = ''dblclick'' then
               (let d = min delay0 1500
                in if atype currentAction = ''submit''
                      \<or> (atype currentAction = ''click'' \<and> target_includes currentAction ''button'')
                   then max d 500 else d)
             else if atype nextAction = ''change'' then min delay0 800
             else min delay0 2000);
          delay2 = (if atype currentAction \<noteq> atype nextAction then max delay1 100 else delay1);
          delay3 =
            (if atype currentAction = ''submit''
                \<or> (atype currentAction = ''click'' \<and> target_includes currentAction ''submit'')
             then max delay2 1000 else delay2);
          sp = to_double (speed st);
          speedMultiplier = js_recip (if js_truthy sp then sp else Num 1);
          delay4 = Math_round (js_times delay3 speedMultiplier)
      in Math_max delay4 25)"

subsection \<open>The delay as the specification words it\<close>

text \<open>
  A "button click" is a click whose target selector contains \<open>button\<close>; a "submit-like"
  action is a submit, or a click whose target selector contains \<open>submit\<close>.
\<close>

definition button_click :: "action \<Rightarrow> bool" where
  "button_click a = (atype a = ''click'' \<and> target_includes a ''button'')"

definition submit_like :: "action \<Rightarrow> bool" where
  "submit_like a = (atype a = ''submit'' \<or> (atype a = ''click'' \<and> target_includes a ''submit''))"

definition clamp_by_type :: "action \<Rightarrow> action \<Rightarrow> int \<Rightarrow> int" where
  "clamp_by_type current next base =
     (if atype next \<in> {''keyup'', ''keydown''} then min base 150
      else if atype next = ''input'' then
        (if atype current \<in> {''input'', ''keydown''} then min base 300 else min base 500)
      else if atype next = ''scroll'' then
        (if atype current = ''scroll'' then min base 50 else min base 100)
      else if atype next \<in> {''click'', ''dblclick''} then
        (if atype current = ''submit'' \<or> button_click current
         then max (min base 1500) 500 else min base 1500)
      else if atype next = ''change'' then min base 800
      else min base 2000)"

definition tiered_delay :: "action \<Rightarrow> action \<Rightarrow> int" where
  "tiered_delay current next =
     (let base = max (timestamp next - timestamp current) 50;
          clamped = clamp_by_type current next base;
          separated = (if atype current \<noteq> atype next then max clamped 100 else clamped)
      in if submit_like current then max separated 1000 else separated)"

text \<open>The last step as the claim has it: the product with \<open>1/speed\<close>, at least 25.\<close>

definition nextDelay_spec :: "action \<Rightarrow> action \<Rightarrow> rat \<Rightarrow> rat" where
  "nextDelay_spec current next sp = max (of_int (tiered_delay current next) * (1 / sp)) 25"

text \<open>
  The last step as the program has it: the reciprocal of the speed and the product are
  each rounded to a double, a speed of 0 counts as 1, and the product is rounded to the
  nearest integer before it is raised to 25.
\<close>

definition nextDelay_rounded :: "action \<Rightarrow> action \<Rightarrow> rat \<Rightarrow> jsnum" where
  "nextDelay_rounded current next sp =
     Math_max
       (Math_round
          (js_times (tiered_delay current next)
             (js_recip (if js_truthy (to_double sp) then to_double sp else Num 1))))
       25"

text \<open>A sample action, used where a statement needs concrete input.\<close>

definition sample_action :: "string \<Rightarrow> int \<Rightarrow> string \<Rightarrow> action" where
  "sample_action ty ts sel =
     \<lparr>atype = ty, timestamp = ts, target = Some sel,
      coordinates = \<lparr>cx = 100, cy = 200, pageX = 100, pageY = 200, elementBox = None\<rparr>,
      key = None, avalue = None, scrollPosition = \<lparr>px = 0, py = 0\<rparr>, scrollStart = None,
      viewport = \<lparr>px = 1280, py = 720\<rparr>\<rparr>"

section \<open>Claim about starting a recording\<close>

text \<open>
  Claim C10. Calling \<open>startRecording\<close> or \<open>continueRecording\<close> while the recorder is
  already recording returns at once: the whole recorder state, and with it the active
  session, its page list and its identity, is left as it was.
\<close>

theorem startRecording_while_recording_noop:
  "isRecording s \<Longrightarrow>
     startRecording show_time e s = s \<and> continueRecording e ses s = s"
  by (simp add: startRecording_def continueRecording_def)

theorem startRecording_while_recording_noop_witness:
  "isRecording (startRecording (\<lambda>t. ''1000'') (env_at 1000 0) newRecorder)
   \<and> startRecording (\<lambda>t. ''2000'') (env_at 2000 0)
         (startRecording (\<lambda>t. ''1000'') (env_at 1000 0) newRecorder)
       = startRecording (\<lambda>t. ''1000'') (env_at 1000 0) newRecorder
   \<and> continueRecording (env_at 2000 0) None
         (startRecording (\<lambda>t. ''1000'') (env_at 1000 0) newRecorder)
       = startRecording (\<lambda>t. ''1000'') (env_at 1000 0) newRecorder"
proof -
  have rec: "isRecording (startRecording (\<lambda>t. ''1000'') (env_at 1000 0) newRecorder)"
    by (simp add: startRecording_def newRecorder_def startPageRecording_def
        updateBackgroundSession_def showIndicator_def env_at_def defaultSettings_def)
  show ?thesis
    using rec startRecording_while_recording_noop [OF rec] by simp
qed

section \<open>Claims about the playback delay\<close>

lemma clamp_by_type_code:
  "clamp_by_type current next delay0 =
            (if atype next = ''keyup'' \<or> atype next = ''keydown'' then
               min delay0 150
             else if atype next = ''input'' then
               (if atype current = ''input'' \<or> atype current = ''keydown''
                then min delay0 300 else min delay0 500)
             else if atype next = ''scroll'' then
               (let d = min delay0 100
                in if atype current = ''scroll'' then min d 50 else d)
             else if atype next = ''click'' \<or> atype next = ''dblclick'' then
               (let d = min delay0 1500
                in if atype current = ''submit''
                      \<or> (atype current = ''click'' \<and> target_includes current ''button'')
                   then max d 500 else d)
             else if atype next = ''change'' then min delay0 800
             else min delay0 2000)"
proof -
  have m: "min (min delay0 100) 50 = min delay0 (50::int)"
    by simp
  show ?thesis
    unfolding clamp_by_type_def button_click_def Let_def
    by (simp add: m)
qed

lemma calculateOptimalDelay_tiered:
  "calculateOptimalDelay st current next
     = Math_max
         (Math_round
            (js_times (tiered_delay current next)
               (js_recip (if js_truthy (to_double (speed st)) then to_double (speed st)
                          else Num 1))))
         25"
  unfolding calculateOptimalDelay_def tiered_delay_def submit_like_def clamp_by_type_code Let_def
  by (rule refl)

text \<open>
  Claim C1, as amended. For every pair of actions and every speed setting the delay is:
  the recorded gap raised to at least 50ms; capped by the type of the next action
  (keyup and keydown at 150ms; input at 300ms after an input or keydown, else at 500ms;
  scroll at 100ms, or at 50ms after a scroll; click and dblclick at 1500ms, then raised to
  at least 500ms after a submit or a button click; change at 800ms; any other type at
  2000ms); raised to at least 100ms when the two types differ; raised to at least 1000ms
  after a submit-like action; multiplied by the reciprocal of the speed, the reciprocal
  and the product each rounded to a double, and a speed of 0 counting as 1; rounded to
  the nearest integer, a half going up; and raised to at least 25ms.
\<close>

theorem calculateOptimalDelay_rounded_formula:
  "calculateOptimalDelay st current next = nextDelay_rounded current next (speed st)"
  unfolding nextDelay_rounded_def by (rule calculateOptimalDelay_tiered)

lemma tiered_delay_click_change:
  "tiered_delay (sample_action ''click'' 0 ''#go'') (sample_action ''change'' 151 ''#opt'') = 151"
  by (simp add: tiered_delay_def clamp_by_type_def button_click_def submit_like_def
      target_includes_def sample_action_def Let_def)

lemma tiered_delay_click_resize:
  "tiered_delay (sample_action ''click'' 0 ''#go'') (sample_action ''resize'' 119 ''window'') = 119"
  by (simp add: tiered_delay_def clamp_by_type_def button_click_def submit_like_def
      target_includes_def sample_action_def Let_def)

text \<open>
  Claim C1, as stated, leaves the rounding out. At speed 2, a change recorded 151ms after
  a click is replayed after 76ms, where the unrounded formula gives 75.5ms.
\<close>

theorem calculateOptimalDelay_unrounded_counterexample:
  "calculateOptimalDelay (defaultSettings\<lparr>speed := 2\<rparr>)
       (sample_action ''click'' 0 ''#go'') (sample_action ''change'' 151 ''#opt'')
     = Num 76
   \<and> nextDelay_spec (sample_action ''click'' 0 ''#go'') (sample_action ''change'' 151 ''#opt'') 2
     = 151 / 2"
proof -
  have d: "to_double 2 = Num 2" "to_double (1 / 2) = Num (1 / 2)"
    "to_double (151 / 2) = Num (151 / 2)"
    by code_simp+
  have a: "calculateOptimalDelay (defaultSettings\<lparr>speed := 2\<rparr>)
       (sample_action ''click'' 0 ''#go'') (sample_action ''change'' 151 ''#opt'')
     = Num 76"
    unfolding calculateOptimalDelay_tiered tiered_delay_click_change
    by (simp add: defaultSettings_def d js_truthy_def js_recip_def js_times_def Math_round_def
        Math_max_def js_round_def)
  have b: "nextDelay_spec (sample_action ''click'' 0 ''#go'')
             (sample_action ''change'' 151 ''#opt'') 2 = 151 / 2"
    unfolding nextDelay_spec_def tiered_delay_click_change by simp
  from a b show ?thesis by (rule conjI)
qed

text \<open>
  The two roundings to a double show at speed 0.56. A resize recorded 119ms after a click
  is replayed after 212ms: the double nearest to 0.56 has the reciprocal
  1.7857142857142856 as a double, and 119 times that is 212.49999999999997 as a double.
  The exact quotient 119/0.56 is 212.5, which would round to 213.
\<close>

lemma calculateOptimalDelay_double_rounding:
  "calculateOptimalDelay (defaultSettings\<lparr>speed := 14 / 25\<rparr>)
       (sample_action ''click'' 0 ''#go'') (sample_action ''resize'' 119 ''window'')
     = Num 212
   \<and> js_round (119 / (14 / 25)) = 213"
proof -
  have d: "to_double (14 / 25) = Num (1261007895663739 / 2251799813685248)"
    "to_double (2251799813685248 / 1261007895663739) = Num (2010535547933257 / 1125899906842624)"
    "to_double (239253730204057583 / 1125899906842624) = Num (7476679068876799 / 35184372088832)"
    by code_simp+
  have r: "js_round (7476679068876799 / 35184372088832) = 212" "js_round (119 / (14 / 25)) = 213"
    by code_simp+
  have "calculateOptimalDelay (defaultSettings\<lparr>speed := 14 / 25\<rparr>)
       (sample_action ''click'' 0 ''#go'') (sample_action ''resize'' 119 ''window'')
     = Num 212"
    unfolding calculateOptimalDelay_tiered tiered_delay_click_resize
    by (simp add: defaultSettings_def d r(1) js_truthy_def js_recip_def js_times_def Math_round_def
        Math_max_def)
  then show ?thesis using r(2) by (rule conjI)
qed

section \<open>Claims about scroll coalescing\<close>

lemma sample_recording_fields:
  "isRecording sample_recording"
  "currentPageData sample_recording
     = Some \<lparr>url = ''https://example.test/'', title = ''Example'', ptimestamp = 1000,
             endTime = None, pactions = []\<rparr>"
  "\<not> isScrolling sample_recording"
  "recordingQueue sample_recording = []"
  "scrollTimeout sample_recording = None"
  "actionDebounceTimeout sample_recording = None"
  "lastRecordedAction sample_recording = None"
  "extensionContextValid sample_recording"
  "\<not> isProcessingQueue sample_recording"
  "currentSession sample_recording = Some \<lparr>sid = ''1000'', startTime = 1000, pages = [Current]\<rparr>"
  by (simp_all add: sample_recording_def startRecording_def newRecorder_def
      startPageRecording_def updateBackgroundSession_def showIndicator_def env_at_def
      defaultSettings_def)

lemma run_scroll_events_scrolling:
  "isRecording s \<Longrightarrow> currentPageData s = Some p \<Longrightarrow> isScrolling s \<Longrightarrow>
   run (scroll_events es) s
     = (if es = [] then s
        else s\<lparr>scrollTimeout := Some (now (last es) + 200, windowScroll (last es))\<rparr>)"
proof (induction es arbitrary: s)
  case Nil
  then show ?case by (simp add: scroll_events_def)
next
  case (Cons e es)
  let ?s1 = "s\<lparr>scrollTimeout := Some (now e + 200, windowScroll e)\<rparr>"
  have step: "handle (e, Scroll) s = ?s1"
    using Cons.prems by (simp add: recordScrollAction_def)
  have "run (scroll_events (e # es)) s = run (scroll_events es) ?s1"
    using step by (simp add: scroll_events_def)
  also have "\<dots> = (if es = [] then ?s1
        else ?s1\<lparr>scrollTimeout := Some (now (last es) + 200, windowScroll (last es))\<rparr>)"
    using Cons.prems by (intro Cons.IH) simp_all
  finally show ?case by simp
qed

lemma run_scroll_burst:
  assumes "isRecording s" "currentPageData s = Some p" "\<not> isScrolling s"
  shows "run (scroll_events (e0 # es)) s
     = s\<lparr>isScrolling := True, scrollStartPosition := Some (windowScroll e0),
          scrollTimeout := Some (now (last (e0 # es)) + 200, windowScroll (last (e0 # es)))\<rparr>"
proof -
  let ?s1 = "s\<lparr>isScrolling := True, scrollStartPosition := Some (windowScroll e0),
          scrollTimeout := Some (now e0 + 200, windowScroll e0)\<rparr>"
  have step: "handle (e0, Scroll) s = ?s1"
    using assms by (simp add: recordScrollAction_def Let_def)
  have "run (scroll_events (e0 # es)) s = run (scroll_events es) ?s1"
    using step by (simp add: scroll_events_def)
  also have "\<dots> = (if es = [] then ?s1
        else ?s1\<lparr>scrollTimeout := Some (now (last es) + 200, windowScroll (last es))\<rparr>)"
    using assms by (intro run_scroll_events_scrolling [where p = p]) simp_all
  finally show ?thesis by simp
qed

text \<open>
  Claim C2, as amended. Take a recorder that is recording on a page, with no scroll burst
  in progress and an empty queue, and a burst of scroll events. When the scroll timer
  fires, 200ms or more after the last event, the page gains exactly one scroll action if
  the position read at the last event is more than 5px away from the position read at
  the first event in either axis, and nothing otherwise; the action's \<open>scrollStart\<close>
  is the first event's position and its \<open>scrollPosition\<close> the last event's position.
  When recording is stopped during the burst instead, the same holds with the position
  read at that moment in place of the last event's position.
\<close>

theorem scroll_burst_coalesced:
  assumes rec: "isRecording s" and pg: "currentPageData s = Some p"
    and idle: "\<not> isScrolling s" and q: "recordingQueue s = []"
    and due: "now (last (e0 # es)) + 200 \<le> now ef"
  shows "map_option pactions
           (currentPageData (outcome_state (scrollTimerFires ef (run (scroll_events (e0 # es)) s))))
         = Some (pactions p @
             (if \<bar>px (windowScroll (last (e0 # es))) - px (windowScroll e0)\<bar> > 5
               \<or> \<bar>py (windowScroll (last (e0 # es))) - py (windowScroll e0)\<bar> > 5
              then [mkScrollAction (now ef - ptimestamp p) (windowScroll (last (e0 # es)))
                      (windowScroll e0) (windowInner ef)]
              else []))
       \<and> map_option pactions
           (currentPageData (outcome_state (removeEventListeners ex (run (scroll_events (e0 # es)) s))))
         = Some (pactions p @
             (if \<bar>px (windowScroll ex) - px (windowScroll e0)\<bar> > 5
               \<or> \<bar>py (windowScroll ex) - py (windowScroll e0)\<bar> > 5
              then [mkScrollAction (now ex - ptimestamp p) (windowScroll ex)
                      (windowScroll e0) (windowInner ex)]
              else []))"
proof -
  note burst = run_scroll_burst [OF rec pg idle, of e0 es]
  have a: "map_option pactions
           (currentPageData (outcome_state (scrollTimerFires ef (run (scroll_events (e0 # es)) s))))
         = Some (pactions p @
             (if \<bar>px (windowScroll (last (e0 # es))) - px (windowScroll e0)\<bar> > 5
               \<or> \<bar>py (windowScroll (last (e0 # es))) - py (windowScroll e0)\<bar> > 5
              then [mkScrollAction (now ef - ptimestamp p) (windowScroll (last (e0 # es)))
                      (windowScroll e0) (windowInner ef)]
              else []))"
    unfolding burst using pg due
    by (simp add: scrollTimerFires_def updateBackgroundSession_def Let_def del: last.simps)
  have b: "map_option pactions
           (currentPageData (outcome_state (removeEventListeners ex (run (scroll_events (e0 # es)) s))))
         = Some (pactions p @
             (if \<bar>px (windowScroll ex) - px (windowScroll e0)\<bar> > 5
               \<or> \<bar>py (windowScroll ex) - py (windowScroll e0)\<bar> > 5
              then [mkScrollAction (now ex - ptimestamp p) (windowScroll ex)
                      (windowScroll e0) (windowInner ex)]
              else []))"
    unfolding burst using pg q
    by (simp add: removeEventListeners_def Let_def del: last.simps)
  from a b show ?thesis by (rule conjI)
qed

theorem scroll_burst_coalesced_witness:
  "map_option pactions
     (currentPageData (outcome_state (scrollTimerFires (env_at 1220 400)
        (run (scroll_events [env_at 1010 100, env_at 1020 400]) sample_recording))))
     = Some [mkScrollAction 220 \<lparr>px = 0, py = 400\<rparr> \<lparr>px = 0, py = 100\<rparr> \<lparr>px = 1280, py = 720\<rparr>]
   \<and> map_option pactions
     (currentPageData (outcome_state (removeEventListeners (env_at 1100 300)
        (run (scroll_events [env_at 1010 100, env_at 1020 400]) sample_recording))))
     = Some [mkScrollAction 100 \<lparr>px = 0, py = 300\<rparr> \<lparr>px = 0, py = 100\<rparr> \<lparr>px = 1280, py = 720\<rparr>]"
proof -
  have due1: "now (last [env_at 1010 100, env_at 1020 400]) + 200 \<le> now (env_at 1220 400)"
    by (simp add: env_at_def)
  show ?thesis
    using scroll_burst_coalesced [OF sample_recording_fields(1-4) due1,
        where ex = "env_at 1100 300"]
    by (simp add: env_at_def)
qed

text \<open>
  Claim C2, as stated, records a burst whose displacement is at least 5px. A burst from
  offset 100 to offset 105 has a displacement of exactly 5px and leaves no action.
\<close>

theorem scroll_burst_5px_counterexample:
  "map_option pactions
     (currentPageData
        (run [(env_at 1010 100, Scroll), (env_at 1020 105, Scroll), (env_at 1220 105, ScrollTimer)]
           sample_recording))
     = Some []
   \<and> \<not> \<bar>py (windowScroll (env_at 1220 105)) - py (windowScroll (env_at 1010 100))\<bar> < 5"
  by (simp add: sample_recording_fields recordScrollAction_def scrollTimerFires_def Let_def
      env_at_def)

section \<open>Claims about the order of the recorded actions\<close>

lemma mkAction_fields [simp]:
  "atype (mkAction ty ev e pts) = ty" "timestamp (mkAction ty ev e pts) = now e - pts"
  by (simp_all add: mkAction_def)

lemma mkAction_target [simp]:
  "target (mkAction ty ev e pts) = evSelector ev" "key (mkAction ty ev e pts) = or_null (evKey ev)"
  by (simp_all add: mkAction_def)

lemma mkScrollAction_fields [simp]:
  "atype (mkScrollAction ts pos st inner) = ''scroll''"
  "timestamp (mkScrollAction ts pos st inner) = ts"
  by (simp_all add: mkScrollAction_def)

lemma isDuplicateAction_policy:
  assumes l: "lastRecordedAction s = Some l"
    and fwd: "timestamp l \<le> timestamp a \<or> atype l \<noteq> atype a"
  shows "isDuplicateAction s a = duplicate_policy l a"
proof (cases "atype l = atype a")
  case False
  then show ?thesis
    unfolding isDuplicateAction_def duplicate_policy_def Let_def l
    by (cases "atype a = ''scroll''"; cases "atype a = ''mousemove''";
        cases "atype a = ''input''"; cases "atype a = ''keydown''"; cases "atype a = ''keyup''")
      auto
next
  case True
  with fwd have le: "timestamp l \<le> timestamp a" by simp
  then have ab: "\<bar>timestamp a - timestamp l\<bar> = timestamp a - timestamp l" by simp
  show ?thesis
    unfolding isDuplicateAction_def duplicate_policy_def Let_def l ab
    apply (cases "atype a = ''scroll''"; cases "atype a = ''mousemove''";
        cases "atype a = ''input''"; cases "atype a = ''keydown''"; cases "atype a = ''keyup''"; simp)
     apply blast+
    done
qed

text \<open>The actions the listener events of a trace are normalised to, in arrival order.\<close>

fun arrivals :: "int \<Rightarrow> (env \<times> event) list \<Rightarrow> action list" where
  "arrivals pageTimestamp [] = []"
| "arrivals pageTimestamp ((e, x) # xs) =
     (case listener_type x of
        Some (ty, ev) \<Rightarrow> mkAction ty ev e pageTimestamp # arrivals pageTimestamp xs
      | None \<Rightarrow> arrivals pageTimestamp xs)"

definition is_scroll :: "action \<Rightarrow> bool" where
  "is_scroll a = (atype a = ''scroll'')"

definition queued_actions :: "page \<Rightarrow> action list" where
  "queued_actions p = filter (\<lambda>a. \<not> is_scroll a) (pactions p)"

definition scroll_actions :: "page \<Rightarrow> action list" where
  "scroll_actions p = filter is_scroll (pactions p)"

text \<open>The clock readings of a trace, and the relative timestamps on the current page.\<close>

definition clock_readings :: "(env \<times> event) list \<Rightarrow> int list" where
  "clock_readings evs = map (\<lambda>x. now (fst x)) evs"

definition page_timestamps :: "recorder \<Rightarrow> int list option" where
  "page_timestamps s = map_option (\<lambda>p. map timestamp (pactions p)) (currentPageData s)"

subsection \<open>The policy and the list of kept actions\<close>

lemma getDebounceDelay_least: "50 \<le> getDebounceDelay ty"
  by (simp add: getDebounceDelay_def)

lemma policy_same_type: "duplicate_policy l a \<Longrightarrow> atype l = atype a"
  unfolding duplicate_policy_def Let_def by auto

lemma policy_far:
  "timestamp l + 50 \<le> timestamp a \<Longrightarrow> \<not> is_scroll a \<Longrightarrow> \<not> duplicate_policy l a"
  unfolding duplicate_policy_def Let_def is_scroll_def by auto

lemma policy_scroll_other: "is_scroll l \<Longrightarrow> \<not> is_scroll a \<Longrightarrow> \<not> duplicate_policy l a"
  using policy_same_type [of l a] by (auto simp: is_scroll_def)

lemma dedupe_subset: "set (dedupe l xs) \<subseteq> set xs"
  by (induction xs arbitrary: l) auto

lemma dedupe_subseq: "subseq (dedupe l xs) xs"
  by (induction xs arbitrary: l) auto

text \<open>The action the kept ones end with, or the one given when none is kept.\<close>

fun last_kept :: "action option \<Rightarrow> action list \<Rightarrow> action option" where
  "last_kept l [] = l"
| "last_kept l (a # rest) =
     (if (case l of None \<Rightarrow> False | Some b \<Rightarrow> duplicate_policy b a)
      then last_kept l rest
      else last_kept (Some a) rest)"

lemma last_kept_cases: "last_kept l xs = l \<or> (\<exists>k\<in>set xs. last_kept l xs = Some k)"
  by (induction xs arbitrary: l) (simp, force)

lemma dedupe_append: "dedupe l (xs @ ys) = dedupe l xs @ dedupe (last_kept l xs) ys"
  by (induction xs arbitrary: l) simp_all

lemma dedupe_head_kept:
  "\<not> (case l of None \<Rightarrow> False | Some b \<Rightarrow> duplicate_policy b f) \<Longrightarrow>
   dedupe l (f # r) = dedupe None (f # r)"
  by simp

lemma dedupe_join:
  assumes gap: "\<forall>k\<in>set done. \<forall>a\<in>set q. timestamp k + 50 \<le> timestamp a"
    and ns: "\<forall>a\<in>set q. \<not> is_scroll a"
  shows "dedupe None (done @ q) = dedupe None done @ dedupe None q"
proof (cases q)
  case Nil
  then show ?thesis by simp
next
  case (Cons f r)
  have "\<not> (case last_kept None done of None \<Rightarrow> False | Some b \<Rightarrow> duplicate_policy b f)"
  proof (cases "last_kept None done")
    case None
    then show ?thesis by simp
  next
    case (Some k)
    then have "k \<in> set done" using last_kept_cases [of None "done"] by auto
    then have "timestamp k + 50 \<le> timestamp f"
      using gap \<open>q = f # r\<close> by simp
    moreover have "\<not> is_scroll f" using ns \<open>q = f # r\<close> by simp
    ultimately show ?thesis using Some by (simp add: policy_far)
  qed
  then have "dedupe (last_kept None done) (f # r) = dedupe None (f # r)"
    by (rule dedupe_head_kept)
  moreover have "dedupe None (done @ f # r)
                   = dedupe None done @ dedupe (last_kept None done) (f # r)"
    by (rule dedupe_append)
  ultimately show ?thesis unfolding Cons by (simp only:)
qed

lemma dedupe_all:
  "successively (\<lambda>b a. \<not> duplicate_policy b a) xs \<Longrightarrow>
   (case l of None \<Rightarrow> True | Some b \<Rightarrow> xs = [] \<or> \<not> duplicate_policy b (hd xs)) \<Longrightarrow>
   dedupe l xs = xs"
proof (induction xs arbitrary: l)
  case Nil
  then show ?case by simp
next
  case (Cons a xs)
  have keep: "\<not> (case l of None \<Rightarrow> False | Some b \<Rightarrow> duplicate_policy b a)"
    using Cons.prems(2) by (cases l) simp_all
  have "dedupe (Some a) xs = xs"
  proof (rule Cons.IH)
    show "successively (\<lambda>b a. \<not> duplicate_policy b a) xs"
      using Cons.prems(1) by (cases xs) simp_all
    show "case Some a of None \<Rightarrow> True | Some b \<Rightarrow> xs = [] \<or> \<not> duplicate_policy b (hd xs)"
      using Cons.prems(1) by (cases xs) simp_all
  qed
  then show ?case using keep by simp
qed

subsection \<open>The flush\<close>

text \<open>What a flush leaves, given the state and the page it started from.\<close>

definition flushed :: "recorder \<Rightarrow> page \<Rightarrow> action list \<Rightarrow> recorder \<Rightarrow> bool" where
  "flushed s p q s' =
     (currentPageData s' = Some (p\<lparr>pactions := pactions p @ dedupe (lastRecordedAction s) q\<rparr>)
      \<and> recordingQueue s' = []
      \<and> lastRecordedAction s' = last_kept (lastRecordedAction s) q
      \<and> isRecording s' = isRecording s
      \<and> extensionContextValid s' = extensionContextValid s
      \<and> isProcessingQueue s' = isProcessingQueue s
      \<and> actionDebounceTimeout s' = actionDebounceTimeout s
      \<and> currentSession s' = currentSession s
      \<and> indicatorShown s' = indicatorShown s)"

lemma flushQueue_dedupe:
  assumes "currentPageData s = Some p" and "recordingQueue s = q"
    and "sorted (map timestamp q)" and "\<forall>a\<in>set q. \<not> is_scroll a"
    and "\<forall>l. lastRecordedAction s = Some l
            \<longrightarrow> is_scroll l \<or> (\<forall>a\<in>set q. timestamp l \<le> timestamp a)"
  shows "\<exists>s'. flushQueue q s = Returned s' \<and> flushed s p q s'"
  using assms
proof (induction q arbitrary: s p)
  case Nil
  then show ?case by (simp add: flushed_def)
next
  case (Cons a q)
  let ?s1 = "s\<lparr>recordingQueue := q\<rparr>"
  have ns: "\<not> is_scroll a" using Cons.prems(4) by simp
  have dup: "isDuplicateAction ?s1 a
               = (case lastRecordedAction s of None \<Rightarrow> False | Some l \<Rightarrow> duplicate_policy l a)"
  proof (cases "lastRecordedAction s")
    case None
    then show ?thesis by (simp add: isDuplicateAction_def)
  next
    case (Some l)
    then have "is_scroll l \<or> timestamp l \<le> timestamp a" using Cons.prems(5) by auto
    then have "timestamp l \<le> timestamp a \<or> atype l \<noteq> atype a"
      using ns by (auto simp: is_scroll_def)
    moreover have "lastRecordedAction ?s1 = Some l" using Some by simp
    ultimately have "isDuplicateAction ?s1 a = duplicate_policy l a"
      by (rule isDuplicateAction_policy [rotated])
    then show ?thesis using Some by simp
  qed
  show ?case
  proof (cases "isDuplicateAction ?s1 a")
    case True
    have "\<exists>s'. flushQueue q ?s1 = Returned s' \<and> flushed ?s1 p q s'"
      using Cons.prems by (intro Cons.IH) auto
    then obtain s' where s': "flushQueue q ?s1 = Returned s'" "flushed ?s1 p q s'"
      by blast
    have f: "flushQueue (a # q) s = Returned s'"
      using True s'(1) by (simp add: Let_def)
    have "flushed s p (a # q) s'"
      using s'(2) True dup unfolding flushed_def by simp
    with f show ?thesis by blast
  next
    case False
    let ?p2 = "p\<lparr>pactions := pactions p @ [a]\<rparr>"
    let ?s2 = "?s1\<lparr>currentPageData := Some ?p2,
                  actionsRecorded := Suc (actionsRecorded ?s1),
                  lastRecordedAction := Some a\<rparr>"
    have srt: "sorted (map timestamp q)" "\<forall>b\<in>set q. timestamp a \<le> timestamp b"
      using Cons.prems(3) by simp_all
    have "\<exists>s'. flushQueue q ?s2 = Returned s' \<and> flushed ?s2 ?p2 q s'"
      using Cons.prems(4) srt by (intro Cons.IH) auto
    then obtain s' where s': "flushQueue q ?s2 = Returned s'" "flushed ?s2 ?p2 q s'"
      by blast
    have f: "flushQueue (a # q) s = Returned s'"
      using False s'(1) Cons.prems(1) by (simp add: Let_def)
    have "flushed s p (a # q) s'"
      using s'(2) False dup unfolding flushed_def by simp
    with f show ?thesis by blast
  qed
qed


subsection \<open>The invariant of a recording on one page\<close>

text \<open>
  \<open>arr\<close> are the actions arrived so far and \<open>t\<close> is the last clock reading; \<open>done\<close>
  are the arrivals already flushed and \<open>p\<close> is the current page. The flushed arrivals
  are 50ms or more older than the clock and than every queued one, and the debounce
  timer is due 50ms or more after every queued one.
\<close>

definition rec_at ::
  "session option \<Rightarrow> int \<Rightarrow> action list \<Rightarrow> int \<Rightarrow> recorder \<Rightarrow> page \<Rightarrow> action list \<Rightarrow> bool" where
  "rec_at cs pts arr t s p done =
     (currentPageData s = Some p \<and> ptimestamp p = pts \<and> currentSession s = cs
      \<and> isRecording s \<and> extensionContextValid s \<and> \<not> isProcessingQueue s
      \<and> arr = done @ recordingQueue s
      \<and> queued_actions p = dedupe None done
      \<and> (\<forall>a\<in>set arr. \<not> is_scroll a)
      \<and> (\<forall>a\<in>set arr. timestamp a \<le> t - pts)
      \<and> sorted (map timestamp arr)
      \<and> (\<forall>k\<in>set done. timestamp k + 50 \<le> t - pts)
      \<and> (\<forall>k\<in>set done. \<forall>a\<in>set (recordingQueue s). timestamp k + 50 \<le> timestamp a)
      \<and> (recordingQueue s \<noteq> []
           \<longrightarrow> (\<exists>due. actionDebounceTimeout s = Some due
                      \<and> (\<forall>a\<in>set (recordingQueue s). timestamp a + pts + 50 \<le> due)))
      \<and> (\<forall>l. lastRecordedAction s = Some l \<longrightarrow> is_scroll l \<or> l \<in> set done)
      \<and> sorted (map timestamp (scroll_actions p))
      \<and> (\<forall>a\<in>set (scroll_actions p). timestamp a \<le> t - pts))"

definition rec_inv :: "session option \<Rightarrow> int \<Rightarrow> action list \<Rightarrow> int \<Rightarrow> recorder \<Rightarrow> bool" where
  "rec_inv cs pts arr t s = (\<exists>p done. rec_at cs pts arr t s p done)"

lemma rec_atD:
  assumes "rec_at cs pts arr t s p done"
  shows "currentPageData s = Some p" and "ptimestamp p = pts" and "currentSession s = cs"
    and "isRecording s" and "extensionContextValid s" and "\<not> isProcessingQueue s"
    and "arr = done @ recordingQueue s"
    and "queued_actions p = dedupe None done"
    and "\<forall>a\<in>set arr. \<not> is_scroll a"
    and "\<forall>a\<in>set arr. timestamp a \<le> t - pts"
    and "sorted (map timestamp arr)"
    and "\<forall>k\<in>set done. timestamp k + 50 \<le> t - pts"
    and "\<forall>k\<in>set done. \<forall>a\<in>set (recordingQueue s). timestamp k + 50 \<le> timestamp a"
    and "recordingQueue s \<noteq> []
           \<longrightarrow> (\<exists>due. actionDebounceTimeout s = Some due
                      \<and> (\<forall>a\<in>set (recordingQueue s). timestamp a + pts + 50 \<le> due))"
    and "\<forall>l. lastRecordedAction s = Some l \<longrightarrow> is_scroll l \<or> l \<in> set done"
    and "sorted (map timestamp (scroll_actions p))"
    and "\<forall>a\<in>set (scroll_actions p). timestamp a \<le> t - pts"
  using assms unfolding rec_at_def by blast+

lemma rec_atI:
  assumes "currentPageData s = Some p" and "ptimestamp p = pts" and "currentSession s = cs"
    and "isRecording s" and "extensionContextValid s" and "\<not> isProcessingQueue s"
    and "arr = done @ recordingQueue s"
    and "queued_actions p = dedupe None done"
    and "\<forall>a\<in>set arr. \<not> is_scroll a"
    and "\<forall>a\<in>set arr. timestamp a \<le> t - pts"
    and "sorted (map timestamp arr)"
    and "\<forall>k\<in>set done. timestamp k + 50 \<le> t - pts"
    and "\<forall>k\<in>set done. \<forall>a\<in>set (recordingQueue s). timestamp k + 50 \<le> timestamp a"
    and "recordingQueue s \<noteq> []
           \<longrightarrow> (\<exists>due. actionDebounceTimeout s = Some due
                      \<and> (\<forall>a\<in>set (recordingQueue s). timestamp a + pts + 50 \<le> due))"
    and "\<forall>l. lastRecordedAction s = Some l \<longrightarrow> is_scroll l \<or> l \<in> set done"
    and "sorted (map timestamp (scroll_actions p))"
    and "\<forall>a\<in>set (scroll_actions p). timestamp a \<le> t - pts"
  shows "rec_at cs pts arr t s p done"
  unfolding rec_at_def using assms by (intro conjI)

lemma rec_at_later:
  assumes r: "rec_at cs pts arr t s p done" and le: "t \<le> t'"
  shows "rec_at cs pts arr t' s p done"
proof (rule rec_atI)
  note d = rec_atD [OF r]
  show "\<forall>a\<in>set arr. timestamp a \<le> t' - pts" using d(10) le by force
  show "\<forall>k\<in>set done. timestamp k + 50 \<le> t' - pts" using d(12) le by force
  show "\<forall>a\<in>set (scroll_actions p). timestamp a \<le> t' - pts" using d(17) le by force
qed (rule rec_atD [OF r])+

text \<open>A change to fields the invariant does not read.\<close>

lemma rec_at_frame:
  assumes r: "rec_at cs pts arr t s p done"
    and pg: "currentPageData s' = currentPageData s"
    and cs: "currentSession s' = currentSession s"
    and rc: "isRecording s' = isRecording s"
    and vl: "extensionContextValid s' = extensionContextValid s"
    and pr: "isProcessingQueue s' = isProcessingQueue s"
    and qu: "recordingQueue s' = recordingQueue s"
    and tm: "actionDebounceTimeout s' = actionDebounceTimeout s"
    and la: "lastRecordedAction s' = lastRecordedAction s"
  shows "rec_at cs pts arr t s' p done"
proof (rule rec_atI)
  note d = rec_atD [OF r]
  show "currentPageData s' = Some p" using d(1) pg by simp
  show "currentSession s' = cs" using d(3) cs by simp
  show "isRecording s'" using d(4) rc by simp
  show "extensionContextValid s'" using d(5) vl by simp
  show "\<not> isProcessingQueue s'" using d(6) pr by simp
  show "arr = done @ recordingQueue s'" using d(7) qu by simp
  show "\<forall>k\<in>set done. \<forall>a\<in>set (recordingQueue s'). timestamp k + 50 \<le> timestamp a"
    using d(13) unfolding qu .
  show "recordingQueue s' \<noteq> []
           \<longrightarrow> (\<exists>due. actionDebounceTimeout s' = Some due
                      \<and> (\<forall>a\<in>set (recordingQueue s'). timestamp a + pts + 50 \<le> due))"
    using d(14) unfolding qu tm .
  show "\<forall>l. lastRecordedAction s' = Some l \<longrightarrow> is_scroll l \<or> l \<in> set done"
    using d(15) unfolding la .
qed (rule rec_atD [OF r])+

lemma arrival_not_duplicate:
  assumes r: "rec_at cs pts arr t s p done" and le: "t - pts \<le> timestamp a"
    and ns: "\<not> is_scroll a"
  shows "\<not> isDuplicateAction s a"
proof (cases "lastRecordedAction s")
  case None
  then show ?thesis by (simp add: isDuplicateAction_def)
next
  case (Some l)
  note d = rec_atD [OF r]
  from d(15) Some consider "is_scroll l" | "l \<in> set done" by blast
  then show ?thesis
  proof cases
    case 1
    then have "atype l \<noteq> atype a" using ns by (auto simp: is_scroll_def)
    then have "isDuplicateAction s a = duplicate_policy l a"
      using Some by (intro isDuplicateAction_policy) simp_all
    then show ?thesis using policy_scroll_other [OF 1 ns] by simp
  next
    case 2
    then have far: "timestamp l + 50 \<le> timestamp a" using d(12) le by force
    then have "isDuplicateAction s a = duplicate_policy l a"
      using Some by (intro isDuplicateAction_policy) simp_all
    then show ?thesis using policy_far [OF far ns] by simp
  qed
qed

lemma recordAction_inv:
  assumes r: "rec_at cs pts arr t s p done" and le: "t \<le> now e" and ty: "ty \<noteq> ''scroll''"
  shows "rec_at cs pts (arr @ [mkAction ty ev e pts]) (now e) (recordAction ty ev e s) p done"
proof -
  note d = rec_atD [OF r]
  let ?a = "mkAction ty ev e pts"
  let ?s' = "s\<lparr>recordingQueue := recordingQueue s @ [?a],
               actionDebounceTimeout := Some (now e + getDebounceDelay ty)\<rparr>"
  have ns: "\<not> is_scroll ?a" using ty by (simp add: is_scroll_def)
  have ts: "timestamp ?a = now e - pts" by simp
  have "\<not> isDuplicateAction s ?a"
    using r _ ns by (rule arrival_not_duplicate) (simp add: le)
  then have step: "recordAction ty ev e s = ?s'"
    using d(1,2,4,5) by (simp add: recordAction_def queueAction_def)
  have old: "\<forall>b\<in>set arr. timestamp b \<le> now e - pts" using d(10) le by force
  have "rec_at cs pts (arr @ [?a]) (now e) ?s' p done"
  proof (rule rec_atI)
    show "currentPageData ?s' = Some p" using d(1) by simp
    show "ptimestamp p = pts" by (rule d(2))
    show "currentSession ?s' = cs" using d(3) by simp
    show "isRecording ?s'" using d(4) by simp
    show "extensionContextValid ?s'" using d(5) by simp
    show "\<not> isProcessingQueue ?s'" using d(6) by simp
    show "arr @ [?a] = done @ recordingQueue ?s'" using d(7) by simp
    show "queued_actions p = dedupe None done" by (rule d(8))
    show "\<forall>a\<in>set (arr @ [?a]). \<not> is_scroll a" using d(9) ns by simp
    show "\<forall>a\<in>set (arr @ [?a]). timestamp a \<le> now e - pts" using old by simp
    show "sorted (map timestamp (arr @ [?a]))" using d(11) old by (simp add: sorted_append)
    show "\<forall>k\<in>set done. timestamp k + 50 \<le> now e - pts" using d(12) le by force
    show "\<forall>k\<in>set done. \<forall>a\<in>set (recordingQueue ?s'). timestamp k + 50 \<le> timestamp a"
      using d(12,13) le by force
    have "\<forall>b\<in>set (recordingQueue s). timestamp b \<le> now e - pts"
      using old d(7) by simp
    then have "\<forall>b\<in>set (recordingQueue ?s'). timestamp b + pts + 50 \<le> now e + getDebounceDelay ty"
      using getDebounceDelay_least [of ty] by force
    then show "recordingQueue ?s' \<noteq> []
           \<longrightarrow> (\<exists>due. actionDebounceTimeout ?s' = Some due
                      \<and> (\<forall>a\<in>set (recordingQueue ?s'). timestamp a + pts + 50 \<le> due))"
      by simp
    show "\<forall>l. lastRecordedAction ?s' = Some l \<longrightarrow> is_scroll l \<or> l \<in> set done"
      using d(15) by simp
    show "sorted (map timestamp (scroll_actions p))" by (rule d(16))
    show "\<forall>a\<in>set (scroll_actions p). timestamp a \<le> now e - pts" using d(17) le by force
  qed
  then show ?thesis unfolding step .
qed


lemma dedupe_non_scroll:
  assumes "\<forall>a\<in>set q. \<not> is_scroll a"
  shows "filter (\<lambda>a. \<not> is_scroll a) (dedupe l q) = dedupe l q"
    and "filter is_scroll (dedupe l q) = []"
proof -
  have "\<forall>a\<in>set (dedupe l q). \<not> is_scroll a"
    using assms dedupe_subset [of l q] by blast
  then show "filter (\<lambda>a. \<not> is_scroll a) (dedupe l q) = dedupe l q"
    and "filter is_scroll (dedupe l q) = []"
    by (simp_all add: filter_empty_conv)
qed

text \<open>
  A flush of the whole queue, from a state that has the queue and the last recorded
  action of \<open>s\<close> and a page with the queued actions of the page of \<open>s\<close>.
\<close>

lemma flush_step:
  assumes r: "rec_at cs pts arr t s p done" and ne: "recordingQueue s \<noteq> []"
    and pg0: "currentPageData s0 = Some p0" and q0: "recordingQueue s0 = recordingQueue s"
    and l0: "lastRecordedAction s0 = lastRecordedAction s"
    and qa0: "queued_actions p0 = queued_actions p"
  shows "\<exists>s1. flushQueue (recordingQueue s) s0 = Returned s1
           \<and> currentPageData s1
               = Some (p0\<lparr>pactions := pactions p0 @ dedupe None (recordingQueue s)\<rparr>)
           \<and> queued_actions (p0\<lparr>pactions := pactions p0 @ dedupe None (recordingQueue s)\<rparr>)
               = dedupe None arr
           \<and> scroll_actions (p0\<lparr>pactions := pactions p0 @ dedupe None (recordingQueue s)\<rparr>)
               = scroll_actions p0
           \<and> recordingQueue s1 = []
           \<and> (\<forall>l. lastRecordedAction s1 = Some l \<longrightarrow> is_scroll l \<or> l \<in> set arr)
           \<and> isRecording s1 = isRecording s0
           \<and> extensionContextValid s1 = extensionContextValid s0
           \<and> isProcessingQueue s1 = isProcessingQueue s0
           \<and> actionDebounceTimeout s1 = actionDebounceTimeout s0
           \<and> currentSession s1 = currentSession s0
           \<and> indicatorShown s1 = indicatorShown s0"
proof -
  note d = rec_atD [OF r]
  let ?q = "recordingQueue s"
  obtain f rest where q: "?q = f # rest" using ne by (cases ?q) auto
  have ns: "\<forall>a\<in>set ?q. \<not> is_scroll a" using d(9) d(7) by simp
  have srt: "sorted (map timestamp ?q)" using d(11) d(7) by (simp add: sorted_append)
  have lst: "\<forall>l. lastRecordedAction s0 = Some l
               \<longrightarrow> is_scroll l \<or> (\<forall>a\<in>set ?q. timestamp l \<le> timestamp a)"
    using d(15) d(13) unfolding l0 by force
  from flushQueue_dedupe [OF pg0 q0 srt ns lst] obtain s1 where
    f: "flushQueue ?q s0 = Returned s1" and fl: "flushed s0 p0 ?q s1"
    by blast
  have keep: "\<not> (case lastRecordedAction s of None \<Rightarrow> False | Some b \<Rightarrow> duplicate_policy b f)"
  proof (cases "lastRecordedAction s")
    case None
    then show ?thesis by simp
  next
    case (Some l)
    have nf: "\<not> is_scroll f" using ns q by simp
    from d(15) Some consider "is_scroll l" | "l \<in> set done" by blast
    then have "\<not> duplicate_policy l f"
    proof cases
      case 1
      then show ?thesis using nf by (rule policy_scroll_other)
    next
      case 2
      then have "timestamp l + 50 \<le> timestamp f" using d(13) q by simp
      then show ?thesis using nf by (rule policy_far)
    qed
    then show ?thesis using Some by simp
  qed
  have dd: "dedupe (lastRecordedAction s0) ?q = dedupe None ?q"
    unfolding l0 q using keep by (rule dedupe_head_kept)
  let ?p1 = "p0\<lparr>pactions := pactions p0 @ dedupe None ?q\<rparr>"
  have pg1: "currentPageData s1 = Some ?p1"
    using fl unfolding flushed_def dd by simp
  have qa: "queued_actions ?p1 = dedupe None arr"
  proof -
    have "queued_actions ?p1 = queued_actions p0 @ dedupe None ?q"
      by (simp add: queued_actions_def dedupe_non_scroll [OF ns])
    also have "\<dots> = dedupe None done @ dedupe None ?q"
      using qa0 d(8) by simp
    also have "\<dots> = dedupe None (done @ ?q)"
      using dedupe_join [OF d(13) ns] by simp
    finally show ?thesis using d(7) by simp
  qed
  have sa: "scroll_actions ?p1 = scroll_actions p0"
    by (simp add: scroll_actions_def dedupe_non_scroll [OF ns])
  have la: "\<forall>l. lastRecordedAction s1 = Some l \<longrightarrow> is_scroll l \<or> l \<in> set arr"
  proof (intro allI impI)
    fix l assume l: "lastRecordedAction s1 = Some l"
    have eq: "lastRecordedAction s1 = last_kept (lastRecordedAction s) ?q"
      using fl unfolding flushed_def l0 by simp
    from last_kept_cases [of "lastRecordedAction s" ?q]
    show "is_scroll l \<or> l \<in> set arr"
    proof
      assume "last_kept (lastRecordedAction s) ?q = lastRecordedAction s"
      then have "lastRecordedAction s = Some l" using eq l by simp
      then show ?thesis using d(15) d(7) by auto
    next
      assume "\<exists>k\<in>set ?q. last_kept (lastRecordedAction s) ?q = Some k"
      then have "l \<in> set ?q" using eq l by auto
      then show ?thesis using d(7) by simp
    qed
  qed
  have rest: "recordingQueue s1 = []" "isRecording s1 = isRecording s0"
    "extensionContextValid s1 = extensionContextValid s0"
    "isProcessingQueue s1 = isProcessingQueue s0"
    "actionDebounceTimeout s1 = actionDebounceTimeout s0"
    "currentSession s1 = currentSession s0" "indicatorShown s1 = indicatorShown s0"
    using fl unfolding flushed_def by simp_all
  show ?thesis
    using f pg1 qa sa la rest by (intro exI [of _ s1] conjI)
qed

lemma debounceTimerFires_inv:
  assumes r: "rec_at cs pts arr t s p done" and le: "t \<le> now e" and rt: "chromeRuntime e"
  shows "rec_inv cs pts arr (now e) (debounceTimerFires e s)"
proof -
  note d = rec_atD [OF r]
  have same: "rec_inv cs pts arr (now e) s"
    unfolding rec_inv_def using rec_at_later [OF r le] by blast
  show ?thesis
  proof (cases "actionDebounceTimeout s")
    case None
    then show ?thesis using same by (simp add: debounceTimerFires_def)
  next
    case (Some due)
    show ?thesis
    proof (cases "now e < due")
      case True
      then show ?thesis using same Some by (simp add: debounceTimerFires_def)
    next
      case False
      let ?s0 = "s\<lparr>actionDebounceTimeout := None\<rparr>"
      have fire: "debounceTimerFires e s
                    = (case processRecordingQueue e ?s0 of
                         Returned s' \<Rightarrow> s'
                       | Threw s' \<Rightarrow> s'\<lparr>extensionContextValid := False, isRecording := False\<rparr>)"
        using Some False d(5) rt by (simp add: debounceTimerFires_def Let_def)
      show ?thesis
      proof (cases "recordingQueue s = []")
        case True
        then have "processRecordingQueue e ?s0 = Returned ?s0"
          by (simp add: processRecordingQueue_def)
        then have res: "debounceTimerFires e s = ?s0" unfolding fire by simp
        have "rec_at cs pts arr (now e) ?s0 p done"
        proof (rule rec_atI)
          note l = rec_atD [OF rec_at_later [OF r le]]
          show "currentPageData ?s0 = Some p" using d(1) by simp
          show "currentSession ?s0 = cs" using d(3) by simp
          show "isRecording ?s0" using d(4) by simp
          show "extensionContextValid ?s0" using d(5) by simp
          show "\<not> isProcessingQueue ?s0" using d(6) by simp
          show "arr = done @ recordingQueue ?s0" using d(7) by simp
          show "\<forall>k\<in>set done. \<forall>a\<in>set (recordingQueue ?s0). timestamp k + 50 \<le> timestamp a"
            using True by simp
          show "recordingQueue ?s0 \<noteq> []
           \<longrightarrow> (\<exists>due. actionDebounceTimeout ?s0 = Some due
                      \<and> (\<forall>a\<in>set (recordingQueue ?s0). timestamp a + pts + 50 \<le> due))"
            using True by simp
          show "\<forall>l. lastRecordedAction ?s0 = Some l \<longrightarrow> is_scroll l \<or> l \<in> set done"
            using d(15) by simp
          show "ptimestamp p = pts" by (rule l(2))
          show "queued_actions p = dedupe None done" by (rule l(8))
          show "\<forall>a\<in>set arr. \<not> is_scroll a" by (rule l(9))
          show "\<forall>a\<in>set arr. timestamp a \<le> now e - pts" by (rule l(10))
          show "sorted (map timestamp arr)" by (rule l(11))
          show "\<forall>k\<in>set done. timestamp k + 50 \<le> now e - pts" by (rule l(12))
          show "sorted (map timestamp (scroll_actions p))" by (rule l(16))
          show "\<forall>a\<in>set (scroll_actions p). timestamp a \<le> now e - pts" by (rule l(17))
        qed
        then show ?thesis unfolding res rec_inv_def by blast
      next
        case ne: False
        let ?sp = "?s0\<lparr>isProcessingQueue := True\<rparr>"
        let ?p1 = "p\<lparr>pactions := pactions p @ dedupe None (recordingQueue s)\<rparr>"
        from flush_step [OF r ne, of ?sp p] d(1) obtain s1 where
          f: "flushQueue (recordingQueue s) ?sp = Returned s1"
          and pg1: "currentPageData s1 = Some ?p1"
          and qa: "queued_actions ?p1 = dedupe None arr"
          and sa: "scroll_actions ?p1 = scroll_actions p"
          and q1: "recordingQueue s1 = []"
          and la: "\<forall>l. lastRecordedAction s1 = Some l \<longrightarrow> is_scroll l \<or> l \<in> set arr"
          and keep: "isRecording s1 = isRecording ?sp"
            "extensionContextValid s1 = extensionContextValid ?sp"
            "currentSession s1 = currentSession ?sp"
          by auto
        let ?sf = "updateBackgroundSession e (s1\<lparr>isProcessingQueue := False\<rparr>)"
        have "processRecordingQueue e ?s0
                = (case flushQueue (recordingQueue s) ?sp of
                     Threw s' \<Rightarrow> Threw s'
                   | Returned s' \<Rightarrow>
                       Returned (updateBackgroundSession e (s'\<lparr>isProcessingQueue := False\<rparr>)))"
          using ne d(6) by (simp add: processRecordingQueue_def)
        also have "\<dots> = Returned ?sf" unfolding f by simp
        finally have res: "debounceTimerFires e s = ?sf" unfolding fire by simp
        have sf: "currentPageData ?sf = Some ?p1" "recordingQueue ?sf = []"
          "lastRecordedAction ?sf = lastRecordedAction s1" "isRecording ?sf"
          "extensionContextValid ?sf" "\<not> isProcessingQueue ?sf" "currentSession ?sf = cs"
          using pg1 q1 keep d(3,4,5) rt by (simp_all add: updateBackgroundSession_def)
        from d(14) ne Some have due: "\<forall>a\<in>set (recordingQueue s). timestamp a + pts + 50 \<le> due"
          by simp
        have "rec_at cs pts arr (now e) ?sf ?p1 arr"
        proof (rule rec_atI)
          note l = rec_atD [OF rec_at_later [OF r le]]
          show "currentPageData ?sf = Some ?p1" by (rule sf)
          show "ptimestamp ?p1 = pts" using d(2) by simp
          show "currentSession ?sf = cs" by (rule sf)
          show "isRecording ?sf" by (rule sf)
          show "extensionContextValid ?sf" by (rule sf)
          show "\<not> isProcessingQueue ?sf" by (rule sf)
          show "arr = arr @ recordingQueue ?sf" using sf(2) by simp
          show "queued_actions ?p1 = dedupe None arr" by (rule qa)
          show "\<forall>a\<in>set arr. \<not> is_scroll a" by (rule l(9))
          show "\<forall>a\<in>set arr. timestamp a \<le> now e - pts" by (rule l(10))
          show "sorted (map timestamp arr)" by (rule l(11))
          show "\<forall>k\<in>set arr. timestamp k + 50 \<le> now e - pts"
            using l(12) due False unfolding d(7) by force
          show "\<forall>k\<in>set arr. \<forall>a\<in>set (recordingQueue ?sf). timestamp k + 50 \<le> timestamp a"
            using sf(2) by simp
          show "recordingQueue ?sf \<noteq> []
           \<longrightarrow> (\<exists>due. actionDebounceTimeout ?sf = Some due
                      \<and> (\<forall>a\<in>set (recordingQueue ?sf). timestamp a + pts + 50 \<le> due))"
            using sf(2) by simp
          show "\<forall>l. lastRecordedAction ?sf = Some l \<longrightarrow> is_scroll l \<or> l \<in> set arr"
            using la unfolding sf(3) .
          show "sorted (map timestamp (scroll_actions ?p1))" unfolding sa by (rule l(16))
          show "\<forall>a\<in>set (scroll_actions ?p1). timestamp a \<le> now e - pts"
            unfolding sa by (rule l(17))
        qed
        then show ?thesis unfolding res rec_inv_def by blast
      qed
    qed
  qed
qed


lemma recordScrollAction_inv:
  assumes r: "rec_at cs pts arr t s p done"
  shows "rec_at cs pts arr t (recordScrollAction e s) p done"
  using r by (rule rec_at_frame) (simp_all add: recordScrollAction_def Let_def)

text \<open>A scroll action appended to the page, stamped with the clock.\<close>

lemma scroll_appended_inv:
  assumes r: "rec_at cs pts arr t s p done" and le: "t \<le> now e"
    and sc: "is_scroll a" "timestamp a = now e - pts"
    and pg: "currentPageData s' = Some (p\<lparr>pactions := pactions p @ [a]\<rparr>)"
    and la: "lastRecordedAction s' = Some a \<or> lastRecordedAction s' = lastRecordedAction s"
    and cs: "currentSession s' = currentSession s"
    and rc: "isRecording s' = isRecording s"
    and vl: "extensionContextValid s' = extensionContextValid s"
    and pr: "isProcessingQueue s' = isProcessingQueue s"
    and qu: "recordingQueue s' = recordingQueue s"
    and tm: "actionDebounceTimeout s' = actionDebounceTimeout s"
  shows "rec_at cs pts arr (now e) s' (p\<lparr>pactions := pactions p @ [a]\<rparr>) done"
proof (rule rec_atI)
  note d = rec_atD [OF rec_at_later [OF r le]]
  let ?p' = "p\<lparr>pactions := pactions p @ [a]\<rparr>"
  have qa: "queued_actions ?p' = queued_actions p"
    using sc(1) by (simp add: queued_actions_def)
  have sa: "scroll_actions ?p' = scroll_actions p @ [a]"
    using sc(1) by (simp add: scroll_actions_def)
  show "currentPageData s' = Some ?p'" by (rule pg)
  show "ptimestamp ?p' = pts" using d(2) by simp
  show "currentSession s' = cs" using d(3) cs by simp
  show "isRecording s'" using d(4) rc by simp
  show "extensionContextValid s'" using d(5) vl by simp
  show "\<not> isProcessingQueue s'" using d(6) pr by simp
  show "arr = done @ recordingQueue s'" using d(7) qu by simp
  show "queued_actions ?p' = dedupe None done" using d(8) qa by simp
  show "\<forall>a\<in>set arr. \<not> is_scroll a" by (rule d(9))
  show "\<forall>a\<in>set arr. timestamp a \<le> now e - pts" by (rule d(10))
  show "sorted (map timestamp arr)" by (rule d(11))
  show "\<forall>k\<in>set done. timestamp k + 50 \<le> now e - pts" by (rule d(12))
  show "\<forall>k\<in>set done. \<forall>a\<in>set (recordingQueue s'). timestamp k + 50 \<le> timestamp a"
    using d(13) unfolding qu .
  show "recordingQueue s' \<noteq> []
           \<longrightarrow> (\<exists>due. actionDebounceTimeout s' = Some due
                      \<and> (\<forall>a\<in>set (recordingQueue s'). timestamp a + pts + 50 \<le> due))"
    using d(14) unfolding qu tm .
  show "\<forall>l. lastRecordedAction s' = Some l \<longrightarrow> is_scroll l \<or> l \<in> set done"
    using la d(15) sc(1) by auto
  show "sorted (map timestamp (scroll_actions ?p'))"
    unfolding sa using d(16) rec_atD(17) [OF r] le sc(2) by (force simp: sorted_append)
  show "\<forall>a\<in>set (scroll_actions ?p'). timestamp a \<le> now e - pts"
    unfolding sa using d(17) sc(2) by simp
qed

lemma scrollTimerFires_inv:
  assumes r: "rec_at cs pts arr t s p done" and le: "t \<le> now e" and rt: "chromeRuntime e"
  shows "rec_inv cs pts arr (now e) (outcome_state (scrollTimerFires e s))"
proof -
  note d = rec_atD [OF r]
  note later = rec_at_later [OF r le]
  have same: "rec_inv cs pts arr (now e) s"
    unfolding rec_inv_def using later by blast
  show ?thesis
  proof (cases "scrollTimeout s")
    case None
    then show ?thesis using same by (simp add: scrollTimerFires_def)
  next
    case (Some tm)
    obtain due pos where tm: "tm = (due, pos)" by (cases tm)
    show ?thesis
    proof (cases "now e < due")
      case True
      then show ?thesis using same Some tm by (simp add: scrollTimerFires_def)
    next
      case due: False
      let ?s0 = "s\<lparr>scrollTimeout := None\<rparr>"
      have fr0: "rec_at cs pts arr (now e) ?s0 p done"
        using later by (rule rec_at_frame) simp_all
      show ?thesis
      proof (cases "isScrolling s")
        case False
        then have "outcome_state (scrollTimerFires e s) = ?s0"
          using Some tm due by (simp add: scrollTimerFires_def)
        then show ?thesis using fr0 unfolding rec_inv_def by auto
      next
        case scr: True
        show ?thesis
        proof (cases "scrollStartPosition s")
          case None
          then have "outcome_state (scrollTimerFires e s) = ?s0"
            using Some tm due scr d(1) by (simp add: scrollTimerFires_def)
          then show ?thesis using fr0 unfolding rec_inv_def by auto
        next
          case (Some start)
          let ?a = "mkScrollAction (now e - ptimestamp p) pos start (windowInner e)"
          show ?thesis
          proof (cases "\<bar>px pos - px start\<bar> > 5 \<or> \<bar>py pos - py start\<bar> > 5")
            case False
            let ?s' = "?s0\<lparr>isScrolling := False, scrollStartPosition := None\<rparr>"
            have "outcome_state (scrollTimerFires e s) = ?s'"
              using \<open>scrollTimeout s = Some tm\<close> tm due scr d(1) Some False
              by (simp add: scrollTimerFires_def Let_def)
            moreover have "rec_at cs pts arr (now e) ?s' p done"
              using later by (rule rec_at_frame) simp_all
            ultimately show ?thesis unfolding rec_inv_def by auto
          next
            case True
            let ?s' = "(updateBackgroundSession e
                         (?s0\<lparr>currentPageData := Some (p\<lparr>pactions := pactions p @ [?a]\<rparr>),
                              lastRecordedAction := Some ?a\<rparr>))
                       \<lparr>isScrolling := False, scrollStartPosition := None\<rparr>"
            have res: "outcome_state (scrollTimerFires e s) = ?s'"
              using \<open>scrollTimeout s = Some tm\<close> tm due scr d(1) Some True
              by (simp add: scrollTimerFires_def Let_def)
            have "rec_at cs pts arr (now e) ?s' (p\<lparr>pactions := pactions p @ [?a]\<rparr>) done"
              using r le
            proof (rule scroll_appended_inv)
              show "is_scroll ?a" by (simp add: is_scroll_def)
              show "timestamp ?a = now e - pts" using d(2) by simp
            qed (simp_all add: updateBackgroundSession_def rt d(5))
            then show ?thesis unfolding res rec_inv_def by blast
          qed
        qed
      qed
    qed
  qed
qed

lemma listener_type_not_scroll: "listener_type x = Some (ty, ev) \<Longrightarrow> ty \<noteq> ''scroll''"
  by (cases x) auto

lemma handle_listener:
  "listener_type x = Some (ty, ev) \<Longrightarrow> handle (e, x) s = recordAction ty ev e s"
  by (cases x) auto

lemma handle_inv:
  assumes inv: "rec_inv cs pts arr t s" and le: "t \<le> now e" and rt: "chromeRuntime e"
  shows "rec_inv cs pts (arr @ arrivals pts [(e, x)]) (now e) (handle (e, x) s)"
proof -
  from inv obtain p "done" where r: "rec_at cs pts arr t s p done"
    unfolding rec_inv_def by blast
  show ?thesis
  proof (cases "listener_type x")
    case (Some tyev)
    obtain ty ev where tyev: "tyev = (ty, ev)" by (cases tyev)
    have "ty \<noteq> ''scroll''" using Some tyev by (auto dest: listener_type_not_scroll)
    then have "rec_at cs pts (arr @ [mkAction ty ev e pts]) (now e) (recordAction ty ev e s) p done"
      using r le by (intro recordAction_inv)
    then show ?thesis
      using Some tyev handle_listener [of x ty ev e s] unfolding rec_inv_def by auto
  next
    case None
    then consider "x = Scroll" | "x = DebounceTimer" | "x = ScrollTimer"
      by (cases x) auto
    then show ?thesis
    proof cases
      case 1
      have "rec_at cs pts arr (now e) (recordScrollAction e s) p done"
        using recordScrollAction_inv [OF r] le by (rule rec_at_later)
      then show ?thesis using 1 unfolding rec_inv_def by auto
    next
      case 2
      then show ?thesis using debounceTimerFires_inv [OF r le rt] by simp
    next
      case 3
      then show ?thesis using scrollTimerFires_inv [OF r le rt] by simp
    qed
  qed
qed

lemma arrivals_append: "arrivals pts (xs @ ys) = arrivals pts xs @ arrivals pts ys"
  by (induction xs) (auto split: option.splits)

lemma run_inv:
  "rec_inv cs pts arr t s \<Longrightarrow> sorted (t # map (\<lambda>x. now (fst x)) evs) \<Longrightarrow>
   \<forall>x\<in>set evs. chromeRuntime (fst x) \<Longrightarrow>
   rec_inv cs pts (arr @ arrivals pts evs) (last (t # map (\<lambda>x. now (fst x)) evs)) (run evs s)"
proof (induction evs arbitrary: arr t s)
  case Nil
  then show ?case by simp
next
  case (Cons x evs)
  obtain e y where x: "x = (e, y)" by (cases x)
  have le: "t \<le> now e" using Cons.prems(2) x by simp
  have rt: "chromeRuntime e" using Cons.prems(3) x by simp
  have step: "rec_inv cs pts (arr @ arrivals pts [(e, y)]) (now e) (handle (e, y) s)"
    using Cons.prems(1) le rt by (rule handle_inv)
  have srt: "sorted (now e # map (\<lambda>x. now (fst x)) evs)"
    using Cons.prems(2) x by simp
  have "rec_inv cs pts ((arr @ arrivals pts [(e, y)]) @ arrivals pts evs)
          (last (now e # map (\<lambda>x. now (fst x)) evs)) (run evs (handle (e, y) s))"
    using step srt Cons.prems(3) by (intro Cons.IH) simp_all
  then show ?case
    using x arrivals_append [of pts "[(e, y)]" evs] by simp
qed


subsection \<open>Stopping\<close>

lemma updateBackgroundSession_page [simp]:
  "currentPageData (updateBackgroundSession e s) = currentPageData s"
  "currentSession (updateBackgroundSession e s) = currentSession s"
  "indicatorShown (updateBackgroundSession e s) = indicatorShown s"
  by (simp_all add: updateBackgroundSession_def)

lemma removeEventListeners_scroll:
  assumes r: "rec_at cs pts arr t s p done" and le: "t \<le> now ex"
  shows "\<exists>s2 p2. removeEventListeners ex (s\<lparr>isRecording := False\<rparr>)
                   = (if recordingQueue s \<noteq> [] then processRecordingQueue ex s2 else Returned s2)
           \<and> currentPageData s2 = Some p2 \<and> recordingQueue s2 = recordingQueue s
           \<and> lastRecordedAction s2 = lastRecordedAction s \<and> currentSession s2 = cs
           \<and> \<not> isProcessingQueue s2
           \<and> ptimestamp p2 = pts \<and> url p2 = url p \<and> title p2 = title p
           \<and> queued_actions p2 = queued_actions p
           \<and> sorted (map timestamp (scroll_actions p2))"
proof -
  note d = rec_atD [OF r]
  let ?s1 = "s\<lparr>isRecording := False, listenersAttached := False, actionDebounceTimeout := None,
               scrollTimeout := None\<rparr>"
  let ?pos = "windowScroll ex"
  have plain: "currentPageData s2 = Some p \<and> recordingQueue s2 = recordingQueue s
           \<and> lastRecordedAction s2 = lastRecordedAction s \<and> currentSession s2 = cs
           \<and> \<not> isProcessingQueue s2
           \<and> ptimestamp p = pts \<and> url p = url p \<and> title p = title p
           \<and> queued_actions p = queued_actions p
           \<and> sorted (map timestamp (scroll_actions p))"
    if "s2 = ?s1 \<or> s2 = ?s1\<lparr>isScrolling := False, scrollStartPosition := None\<rparr>" for s2
    using that d(1,2,3,6,16) by auto
  show ?thesis
  proof (cases "isScrolling s")
    case False
    then have "removeEventListeners ex (s\<lparr>isRecording := False\<rparr>)
                 = (if recordingQueue s \<noteq> [] then processRecordingQueue ex ?s1 else Returned ?s1)"
      by (simp add: removeEventListeners_def Let_def)
    then show ?thesis using plain [of ?s1] by blast
  next
    case scr: True
    let ?s2 = "?s1\<lparr>isScrolling := False, scrollStartPosition := None\<rparr>"
    show ?thesis
    proof (cases "scrollStartPosition s")
      case None
      then have "removeEventListeners ex (s\<lparr>isRecording := False\<rparr>)
                 = (if recordingQueue s \<noteq> [] then processRecordingQueue ex ?s2 else Returned ?s2)"
        using scr by (simp add: removeEventListeners_def Let_def)
      then show ?thesis using plain [of ?s2] by blast
    next
      case (Some start)
      show ?thesis
      proof (cases "\<bar>px ?pos - px start\<bar> > 5 \<or> \<bar>py ?pos - py start\<bar> > 5")
        case False
        then have "removeEventListeners ex (s\<lparr>isRecording := False\<rparr>)
                 = (if recordingQueue s \<noteq> [] then processRecordingQueue ex ?s2 else Returned ?s2)"
          using scr Some by (simp add: removeEventListeners_def Let_def)
        then show ?thesis using plain [of ?s2] by blast
      next
        case True
        let ?a = "mkScrollAction (now ex - ptimestamp p) ?pos start (windowInner ex)"
        let ?p2 = "p\<lparr>pactions := pactions p @ [?a]\<rparr>"
        let ?s3 = "?s1\<lparr>currentPageData := Some ?p2, isScrolling := False,
                      scrollStartPosition := None\<rparr>"
        have res: "removeEventListeners ex (s\<lparr>isRecording := False\<rparr>)
                 = (if recordingQueue s \<noteq> [] then processRecordingQueue ex ?s3 else Returned ?s3)"
          using scr Some True d(1) by (simp add: removeEventListeners_def Let_def)
        have qa: "queued_actions ?p2 = queued_actions p"
          by (simp add: queued_actions_def is_scroll_def)
        have "scroll_actions ?p2 = scroll_actions p @ [?a]"
          by (simp add: scroll_actions_def is_scroll_def)
        moreover have "\<forall>b\<in>set (scroll_actions p). timestamp b \<le> now ex - ptimestamp p"
          using d(17) d(2) le by force
        ultimately have srt: "sorted (map timestamp (scroll_actions ?p2))"
          using d(16) by (simp add: sorted_append)
        have "currentPageData ?s3 = Some ?p2 \<and> recordingQueue ?s3 = recordingQueue s
           \<and> lastRecordedAction ?s3 = lastRecordedAction s \<and> currentSession ?s3 = cs
           \<and> \<not> isProcessingQueue ?s3
           \<and> ptimestamp ?p2 = pts \<and> url ?p2 = url p \<and> title ?p2 = title p
           \<and> queued_actions ?p2 = queued_actions p
           \<and> sorted (map timestamp (scroll_actions ?p2))"
          using d(2,3,6) qa srt by simp
        with res show ?thesis by blast
      qed
    qed
  qed
qed

lemma removeEventListeners_flushes:
  assumes r: "rec_at cs pts arr t s p done" and le: "t \<le> now ex"
  shows "\<exists>s' pf. removeEventListeners ex (s\<lparr>isRecording := False\<rparr>) = Returned s'
           \<and> currentPageData s' = Some pf \<and> currentSession s' = cs
           \<and> ptimestamp pf = pts \<and> url pf = url p \<and> title pf = title p
           \<and> queued_actions pf = dedupe None arr
           \<and> sorted (map timestamp (scroll_actions pf))"
proof -
  note d = rec_atD [OF r]
  from removeEventListeners_scroll [OF r le] obtain s2 p2 where
    res: "removeEventListeners ex (s\<lparr>isRecording := False\<rparr>)
            = (if recordingQueue s \<noteq> [] then processRecordingQueue ex s2 else Returned s2)"
    and s2: "currentPageData s2 = Some p2" "recordingQueue s2 = recordingQueue s"
      "lastRecordedAction s2 = lastRecordedAction s" "currentSession s2 = cs"
      "\<not> isProcessingQueue s2"
    and p2: "ptimestamp p2 = pts" "url p2 = url p" "title p2 = title p"
      "queued_actions p2 = queued_actions p" "sorted (map timestamp (scroll_actions p2))"
    by blast
  show ?thesis
  proof (cases "recordingQueue s = []")
    case True
    then have "removeEventListeners ex (s\<lparr>isRecording := False\<rparr>) = Returned s2"
      using res by simp
    moreover have "queued_actions p2 = dedupe None arr"
      using p2(4) d(7,8) True by simp
    ultimately show ?thesis using s2(1,4) p2(1,2,3,5) by blast
  next
    case ne: False
    let ?sp = "s2\<lparr>isProcessingQueue := True\<rparr>"
    let ?pf = "p2\<lparr>pactions := pactions p2 @ dedupe None (recordingQueue s)\<rparr>"
    have "\<exists>s1. flushQueue (recordingQueue s) ?sp = Returned s1
           \<and> currentPageData s1 = Some ?pf
           \<and> queued_actions ?pf = dedupe None arr
           \<and> scroll_actions ?pf = scroll_actions p2
           \<and> recordingQueue s1 = []
           \<and> (\<forall>l. lastRecordedAction s1 = Some l \<longrightarrow> is_scroll l \<or> l \<in> set arr)
           \<and> isRecording s1 = isRecording ?sp
           \<and> extensionContextValid s1 = extensionContextValid ?sp
           \<and> isProcessingQueue s1 = isProcessingQueue ?sp
           \<and> actionDebounceTimeout s1 = actionDebounceTimeout ?sp
           \<and> currentSession s1 = currentSession ?sp
           \<and> indicatorShown s1 = indicatorShown ?sp"
      using r ne by (rule flush_step) (simp_all add: s2 p2)
    then obtain s1 where
      f: "flushQueue (recordingQueue s) ?sp = Returned s1"
      and pg1: "currentPageData s1 = Some ?pf"
      and qa: "queued_actions ?pf = dedupe None arr"
      and sa: "scroll_actions ?pf = scroll_actions p2"
      and cs1: "currentSession s1 = currentSession ?sp"
      by blast
    let ?sf = "updateBackgroundSession ex (s1\<lparr>isProcessingQueue := False\<rparr>)"
    have "processRecordingQueue ex s2
            = (case flushQueue (recordingQueue s) ?sp of
                 Threw s' \<Rightarrow> Threw s'
               | Returned s' \<Rightarrow>
                   Returned (updateBackgroundSession ex (s'\<lparr>isProcessingQueue := False\<rparr>)))"
      using ne s2(2,5) by (simp add: processRecordingQueue_def)
    also have "\<dots> = Returned ?sf" unfolding f by simp
    finally have "removeEventListeners ex (s\<lparr>isRecording := False\<rparr>) = Returned ?sf"
      using res ne by simp
    moreover have "currentPageData ?sf = Some ?pf" using pg1 by simp
    moreover have "currentSession ?sf = cs" using cs1 s2(4) by simp
    moreover have "ptimestamp ?pf = pts" "url ?pf = url p" "title ?pf = title p"
      using p2(1,2,3) by simp_all
    moreover have "sorted (map timestamp (scroll_actions ?pf))" unfolding sa by (rule p2(5))
    ultimately show ?thesis using qa by blast
  qed
qed

lemma stopRecording_flushes:
  assumes r: "rec_at cs pts arr t s p done" and le: "t \<le> now ex"
  shows "\<exists>pf rest. stopRecording ex s = Returned (map_option (close_slots (Some pf)) cs, rest)
           \<and> ptimestamp pf = pts \<and> url pf = url p \<and> title pf = title p
           \<and> endTime pf = Some (now ex)
           \<and> queued_actions pf = dedupe None arr
           \<and> sorted (map timestamp (scroll_actions pf))"
proof -
  note d = rec_atD [OF r]
  from removeEventListeners_flushes [OF r le] obtain s' pf where
    res: "removeEventListeners ex (s\<lparr>isRecording := False\<rparr>) = Returned s'"
    and s': "currentPageData s' = Some pf" "currentSession s' = cs"
    and pf: "ptimestamp pf = pts" "url pf = url p" "title pf = title p"
      "queued_actions pf = dedupe None arr" "sorted (map timestamp (scroll_actions pf))"
    by blast
  let ?pe = "pf\<lparr>endTime := Some (now ex)\<rparr>"
  have "\<exists>rest. stopRecording ex s = Returned (map_option (close_slots (Some ?pe)) cs, rest)"
    using d(4) res s' by (simp add: stopRecording_def Let_def)
  moreover have "queued_actions ?pe = dedupe None arr" "sorted (map timestamp (scroll_actions ?pe))"
    using pf(4,5) by (simp_all add: queued_actions_def scroll_actions_def)
  moreover have "ptimestamp ?pe = pts" "url ?pe = url p" "title ?pe = title p"
    "endTime ?pe = Some (now ex)"
    using pf(1,2,3) by simp_all
  ultimately show ?thesis by blast
qed

lemma close_slots_current:
  "pages ses = map Closed earlier @ [Current] \<Longrightarrow>
   close_slots (Some pf) ses = ses\<lparr>pages := map Closed earlier @ [Closed pf]\<rparr>"
  by (simp add: close_slots_def comp_def)

lemma subseq_sorted_wrt:
  "subseq xs ys \<Longrightarrow> sorted_wrt P ys \<Longrightarrow> sorted_wrt P xs"
proof (induction rule: list_emb.induct)
  case (list_emb_Nil ys)
  then show ?case by simp
next
  case (list_emb_Cons xs ys y)
  then show ?case by simp
next
  case (list_emb_Cons2 x y xs ys)
  then have "set xs \<subseteq> set ys" by (auto elim: list_emb_set)
  with list_emb_Cons2 show ?case by auto
qed

text \<open>
  Claim C5, as amended. Take a recorder that is recording on a fresh page, with an empty
  queue and no last recorded action, and any trace of listener events and timer
  callbacks whose clock readings never go back, the extension context staying valid.
  At every moment the arrived actions are the flushed ones followed by the queue, and
  the page holds, of the flushed ones, each that is not a duplicate of the one kept
  before it, in arrival order. When the recording is stopped the queue is flushed too:
  the returned page holds the arrived actions without those duplicates, in arrival
  order, so all of them when none is a duplicate of the one before it. Their relative
  timestamps never decrease, and those of the coalesced scroll actions never decrease
  either. Nothing is said about the order between the two kinds.
\<close>

theorem recorded_actions_complete_in_order_per_path:
  assumes rec: "isRecording s" and ctx: "extensionContextValid s"
    and idle: "\<not> isProcessingQueue s"
    and pg: "currentPageData s = Some p" and fresh: "pactions p = []"
    and q: "recordingQueue s = []" and none: "lastRecordedAction s = None"
    and ses: "currentSession s = Some ses" and slots: "pages ses = map Closed earlier @ [Current]"
    and runtime: "\<forall>x\<in>set evs. chromeRuntime (fst x)"
    and clock: "sorted (clock_readings evs @ [now ex])"
  shows "(\<exists>p' done. currentPageData (run evs s) = Some p'
            \<and> arrivals (ptimestamp p) evs = done @ recordingQueue (run evs s)
            \<and> queued_actions p' = dedupe None done
            \<and> sorted (map timestamp (scroll_actions p')))
       \<and> (\<exists>pf rest.
             stopRecording ex (run evs s)
               = Returned (Some (ses\<lparr>pages := map Closed earlier @ [Closed pf]\<rparr>), rest)
           \<and> queued_actions pf = dedupe None (arrivals (ptimestamp p) evs)
           \<and> (successively (\<lambda>b a. \<not> duplicate_policy b a) (arrivals (ptimestamp p) evs)
                \<longrightarrow> queued_actions pf = arrivals (ptimestamp p) evs)
           \<and> sorted (map timestamp (queued_actions pf))
           \<and> sorted (map timestamp (scroll_actions pf)))"
proof -
  let ?arr = "arrivals (ptimestamp p) evs"
  define t0 where "t0 = (case evs of [] \<Rightarrow> now ex | x # _ \<Rightarrow> now (fst x))"
  have r0: "rec_at (Some ses) (ptimestamp p) [] t0 s p []"
    using rec ctx idle pg fresh q none ses
    by (intro rec_atI) (simp_all add: queued_actions_def scroll_actions_def)
  then have inv0: "rec_inv (Some ses) (ptimestamp p) [] t0 s"
    unfolding rec_inv_def by blast
  have clock': "sorted (map (\<lambda>x. now (fst x)) evs @ [now ex])"
    using clock by (simp add: clock_readings_def)
  then have srt: "sorted (t0 # map (\<lambda>x. now (fst x)) evs)"
    unfolding t0_def by (cases evs) (auto simp: sorted_append)
  let ?t = "last (t0 # map (\<lambda>x. now (fst x)) evs)"
  have "\<forall>y\<in>set (t0 # map (\<lambda>x. now (fst x)) evs). y \<le> now ex"
    using clock' unfolding t0_def by (cases evs) (auto simp: sorted_append)
  moreover have "?t \<in> set (t0 # map (\<lambda>x. now (fst x)) evs)"
    by (rule last_in_set) simp
  ultimately have le: "?t \<le> now ex" by blast
  from run_inv [OF inv0 srt runtime]
  have "rec_inv (Some ses) (ptimestamp p) ?arr ?t (run evs s)" by simp
  then obtain p' "done" where r: "rec_at (Some ses) (ptimestamp p) ?arr ?t (run evs s) p' done"
    unfolding rec_inv_def by blast
  note d = rec_atD [OF r]
  have mid: "\<exists>p' done. currentPageData (run evs s) = Some p'
            \<and> ?arr = done @ recordingQueue (run evs s)
            \<and> queued_actions p' = dedupe None done
            \<and> sorted (map timestamp (scroll_actions p'))"
    using d(1,7,8,16) by blast
  from stopRecording_flushes [OF r le] obtain pf rest where
    stop: "stopRecording ex (run evs s)
             = Returned (map_option (close_slots (Some pf)) (Some ses), rest)"
    and qa: "queued_actions pf = dedupe None ?arr"
    and sa: "sorted (map timestamp (scroll_actions pf))"
    by blast
  have stop': "stopRecording ex (run evs s)
                 = Returned (Some (ses\<lparr>pages := map Closed earlier @ [Closed pf]\<rparr>), rest)"
    unfolding stop using close_slots_current [OF slots] by simp
  have all: "successively (\<lambda>b a. \<not> duplicate_policy b a) ?arr \<longrightarrow> queued_actions pf = ?arr"
    unfolding qa by (auto intro: dedupe_all)
  have "subseq (map timestamp (dedupe None ?arr)) (map timestamp ?arr)"
    using dedupe_subseq by (rule subseq_map)
  then have "sorted (map timestamp (dedupe None ?arr))"
    using d(11) by (rule subseq_sorted_wrt)
  then have qs: "sorted (map timestamp (queued_actions pf))" unfolding qa .
  from stop' qa all qs sa have "\<exists>pf rest.
             stopRecording ex (run evs s)
               = Returned (Some (ses\<lparr>pages := map Closed earlier @ [Closed pf]\<rparr>), rest)
           \<and> queued_actions pf = dedupe None ?arr
           \<and> (successively (\<lambda>b a. \<not> duplicate_policy b a) ?arr \<longrightarrow> queued_actions pf = ?arr)
           \<and> sorted (map timestamp (queued_actions pf))
           \<and> sorted (map timestamp (scroll_actions pf))"
    by blast
  with mid show ?thesis by (rule conjI)
qed


text \<open>
  A trace with a click, two inputs on the same field 20ms apart, a keydown and two
  scroll bursts, each timer firing when it is due.
\<close>

definition busy_trace :: "(env \<times> event) list" where
  "busy_trace =
     [(env_at 1100 0, Click (ev_on ''#go'')),
      (env_at 1110 100, Scroll), (env_at 1120 400, Scroll),
      (env_at 1150 400, DebounceTimer),
      (env_at 1200 400, Input (ev_on ''#q'')), (env_at 1220 400, Input (ev_on ''#q'')),
      (env_at 1320 400, ScrollTimer), (env_at 1330 400, DebounceTimer),
      (env_at 1400 400, Scroll), (env_at 1410 800, Scroll),
      (env_at 1500 800, KeyDown (ev_on ''#q'')), (env_at 1560 800, DebounceTimer),
      (env_at 1610 800, ScrollTimer)]"

lemma busy_trace_kept:
  "map (\<lambda>a. (atype a, timestamp a)) (dedupe None (arrivals 1000 busy_trace))
     = [(''click'', 100), (''input'', 200), (''keydown'', 500)]"
  by (simp add: busy_trace_def duplicate_policy_def env_at_def ev_on_def)

theorem recorded_actions_complete_in_order_per_path_witness:
  "\<exists>pf rest.
      stopRecording (env_at 1700 800) (run busy_trace sample_recording)
        = Returned (Some \<lparr>sid = ''1000'', startTime = 1000, pages = [Closed pf]\<rparr>, rest)
    \<and> map (\<lambda>a. (atype a, timestamp a)) (queued_actions pf)
        = [(''click'', 100), (''input'', 200), (''keydown'', 500)]
    \<and> sorted (map timestamp (queued_actions pf))
    \<and> sorted (map timestamp (scroll_actions pf))"
proof -
  have fresh: "pactions \<lparr>url = ''https://example.test/'', title = ''Example'', ptimestamp = 1000,
             endTime = None, pactions = []\<rparr> = []"
    by simp
  have slots: "pages \<lparr>sid = ''1000'', startTime = 1000, pages = [Current]\<rparr> = map Closed [] @ [Current]"
    by simp
  have runtime: "\<forall>x\<in>set busy_trace. chromeRuntime (fst x)"
    by (simp add: busy_trace_def env_at_def)
  have clock: "sorted (clock_readings busy_trace @ [now (env_at 1700 800)])"
    by (simp add: clock_readings_def busy_trace_def env_at_def)
  from recorded_actions_complete_in_order_per_path
    [OF sample_recording_fields(1) sample_recording_fields(8) sample_recording_fields(9)
      sample_recording_fields(2) fresh sample_recording_fields(4) sample_recording_fields(7)
      sample_recording_fields(10) slots runtime clock, THEN conjunct2]
  obtain pf rest where
    stop: "stopRecording (env_at 1700 800) (run busy_trace sample_recording)
        = Returned (Some \<lparr>sid = ''1000'', startTime = 1000, pages = [Closed pf]\<rparr>, rest)"
    and qa: "queued_actions pf = dedupe None (arrivals 1000 busy_trace)"
    and qs: "sorted (map timestamp (queued_actions pf))"
    and ss: "sorted (map timestamp (scroll_actions pf))"
    by auto
  have m: "map (\<lambda>a. (atype a, timestamp a)) (queued_actions pf)
        = [(''click'', 100), (''input'', 200), (''keydown'', 500)]"
    unfolding qa by (rule busy_trace_kept)
  show ?thesis
    by (intro exI [of _ pf] exI [of _ rest] conjI stop m qs ss)
qed

text \<open>The page that trace leaves when the recording is stopped at 1700.\<close>

lemma busy_trace_page:
  "map_option (\<lambda>ses. map (\<lambda>sl. case sl of
                                  Closed p \<Rightarrow> map (\<lambda>a. (atype a, timestamp a)) (pactions p)
                                | Current \<Rightarrow> [])
                         (pages ses))
     (fst (outcome_state (stopRecording (env_at 1700 800) (run busy_trace sample_recording))))
   = Some [[(''click'', 100), (''scroll'', 320), (''input'', 200), (''keydown'', 500),
            (''scroll'', 610)]]"
  by (simp add: busy_trace_def sample_recording_fields recordScrollAction_def
      scrollTimerFires_def recordAction_def queueAction_def isDuplicateAction_def
      debounceTimerFires_def processRecordingQueue_def updateBackgroundSession_def
      getDebounceDelay_def stopRecording_def removeEventListeners_def close_slots_def
      Let_def env_at_def ev_on_def)

text \<open>
  A trace in which a click arrives while a scroll burst is settling: the scroll timer
  fires before the debounce timer does.
\<close>

definition interleaved_trace :: "(env \<times> event) list" where
  "interleaved_trace =
     [(env_at 1010 100, Scroll), (env_at 1020 400, Scroll),
      (env_at 1200 400, Click (ev_on ''#go'')),
      (env_at 1220 400, ScrollTimer), (env_at 1250 400, DebounceTimer)]"

lemma interleaved_trace_result:
  "map_option (\<lambda>p. map (\<lambda>a. (atype a, timestamp a)) (pactions p))
     (currentPageData (run interleaved_trace sample_recording))
     = Some [(''scroll'', 220), (''click'', 200)]"
  by (simp add: interleaved_trace_def sample_recording_fields recordScrollAction_def
      scrollTimerFires_def recordAction_def queueAction_def isDuplicateAction_def
      debounceTimerFires_def processRecordingQueue_def updateBackgroundSession_def
      getDebounceDelay_def Let_def env_at_def)

text \<open>
  Claim C5, as stated, fails across the two paths. The scroll action is stamped when its
  timer fires, at 220ms, and is pushed at once; the click was stamped on arrival, at
  200ms, and reaches the page only when the queue is flushed. The page then holds the
  timestamps 220, 200, in that order.
\<close>

theorem interleaved_scroll_breaks_order_counterexample:
  "page_timestamps (run interleaved_trace sample_recording) = Some [220, 200]
   \<and> sorted (clock_readings interleaved_trace)
   \<and> \<not> sorted [220, 200 :: int]"
proof -
  have "page_timestamps (run interleaved_trace sample_recording) = Some [220, 200]"
    using interleaved_trace_result unfolding page_timestamps_def
    by (cases "currentPageData (run interleaved_trace sample_recording)") auto
  moreover have "sorted (clock_readings interleaved_trace)"
    by (simp add: clock_readings_def interleaved_trace_def env_at_def)
  ultimately show ?thesis by simp
qed

section \<open>Claim about deduplication\<close>

text \<open>
  A first recording, started at clock reading 1000, takes one input on \<open>#q\<close> at 59000 and
  is stopped at 60000. A second recording on the same page is started at 100000 and
  takes three inputs on \<open>#q\<close>, at 100500, 101000 and 129000, each followed by the
  debounce timer; it is stopped at 130000.
\<close>

definition first_recording :: recorder where
  "first_recording =
     run [(env_at 59000 0, Input (ev_on ''#q'')), (env_at 59100 0, DebounceTimer)]
       sample_recording"

definition restarted :: recorder where
  "restarted =
     startRecording (\<lambda>t. ''100000'') (env_at 100000 0)
       (snd (outcome_state (stopRecording (env_at 60000 0) first_recording)))"

definition second_recording :: recorder where
  "second_recording =
     run [(env_at 100500 0, Input (ev_on ''#q'')), (env_at 100600 0, DebounceTimer),
          (env_at 101000 0, Input (ev_on ''#q'')), (env_at 101100 0, DebounceTimer),
          (env_at 129000 0, Input (ev_on ''#q'')), (env_at 129100 0, DebounceTimer)]
       restarted"

text \<open>
  A scroll burst from offset 100 to 400 is recorded when its timer fires at 1220. A
  second burst starts at 1250 at offset 404, and the recording is stopped at 1300 at
  offset 412.
\<close>

definition two_bursts :: recorder where
  "two_bursts =
     run [(env_at 1010 100, Scroll), (env_at 1020 400, Scroll), (env_at 1220 400, ScrollTimer),
          (env_at 1250 404, Scroll)]
       sample_recording"

lemma first_recording_fields:
  "isRecording first_recording"
  "lastRecordedAction first_recording = Some (mkAction ''input'' (ev_on ''#q'') (env_at 59000 0) 1000)"
  "recordingQueue first_recording = []"
  "\<not> isScrolling first_recording"
  "extensionContextValid first_recording"
  "\<not> isProcessingQueue first_recording"
  "currentPageData first_recording
     = Some \<lparr>url = ''https://example.test/'', title = ''Example'', ptimestamp = 1000,
             endTime = None, pactions = [mkAction ''input'' (ev_on ''#q'') (env_at 59000 0) 1000]\<rparr>"
  by (simp_all add: first_recording_def sample_recording_fields recordAction_def queueAction_def
      isDuplicateAction_def debounceTimerFires_def processRecordingQueue_def
      updateBackgroundSession_def getDebounceDelay_def Let_def env_at_def)

lemma restarted_fields:
  "isRecording restarted"
  "lastRecordedAction restarted = Some (mkAction ''input'' (ev_on ''#q'') (env_at 59000 0) 1000)"
  "recordingQueue restarted = []"
  "\<not> isScrolling restarted"
  "extensionContextValid restarted"
  "\<not> isProcessingQueue restarted"
  "currentPageData restarted
     = Some \<lparr>url = ''https://example.test/'', title = ''Example'', ptimestamp = 100000,
             endTime = None, pactions = []\<rparr>"
  "currentSession restarted = Some \<lparr>sid = ''100000'', startTime = 100000, pages = [Current]\<rparr>"
  "actionDebounceTimeout restarted = None"
  by (simp_all add: restarted_def stopRecording_def removeEventListeners_def
      first_recording_fields startRecording_def startPageRecording_def
      updateBackgroundSession_def showIndicator_def Let_def env_at_def)


lemma second_recording_unchanged: "second_recording = restarted"
proof -
  have dup: "isDuplicateAction restarted (mkAction ''input'' (ev_on ''#q'') (env_at t 0) 100000)"
    if "t < 158050" for t
    using that by (simp add: isDuplicateAction_def restarted_fields env_at_def ev_on_def)
  have inp: "recordAction ''input'' (ev_on ''#q'') (env_at t 0) restarted = restarted"
    if "t < 158050" for t
    using dup [OF that] by (simp add: recordAction_def queueAction_def restarted_fields)
  have tmr: "debounceTimerFires (env_at t 0) restarted = restarted" for t
    by (simp add: debounceTimerFires_def restarted_fields)
  show ?thesis
    unfolding second_recording_def by (simp add: inp tmr)
qed

lemma two_bursts_fields:
  "isRecording two_bursts"
  "recordingQueue two_bursts = []"
  "isScrolling two_bursts"
  "scrollStartPosition two_bursts = Some \<lparr>px = 0, py = 404\<rparr>"
  "currentSession two_bursts = Some \<lparr>sid = ''1000'', startTime = 1000, pages = [Current]\<rparr>"
  "currentPageData two_bursts
     = Some \<lparr>url = ''https://example.test/'', title = ''Example'', ptimestamp = 1000,
             endTime = None,
             pactions = [mkScrollAction 220 \<lparr>px = 0, py = 400\<rparr> \<lparr>px = 0, py = 100\<rparr>
                           \<lparr>px = 1280, py = 720\<rparr>]\<rparr>"
  by (simp_all add: two_bursts_def sample_recording_fields recordScrollAction_def
      scrollTimerFires_def updateBackgroundSession_def Let_def env_at_def)

text \<open>
  Claim C7 at two inputs. After a stop and a new start the recorder still holds the
  last action of the first recording, stamped 58000ms after that recording's page
  began. The inputs of the second recording are stamped 500ms, 1000ms and 29000ms after
  its own page began; none of them is within 50ms of the stale action, yet each is
  dropped as its duplicate, the difference of the stamps being negative, and the second
  recording comes back with an empty page. In the other direction, the scroll action
  appended on stop lies 80ms and 12px after the one before it, a duplicate by the
  policy, and both are kept: scroll actions do not pass \<open>isDuplicateAction\<close>.
\<close>

theorem stale_last_action_drops_later_inputs:
  "lastRecordedAction restarted = Some (mkAction ''input'' (ev_on ''#q'') (env_at 59000 0) 1000)
   \<and> fst (outcome_state (stopRecording (env_at 130000 0) second_recording))
     = Some \<lparr>sid = ''100000'', startTime = 100000,
             pages = [Closed \<lparr>url = ''https://example.test/'', title = ''Example'',
                             ptimestamp = 100000, endTime = Some 130000, pactions = []\<rparr>]\<rparr>
   \<and> \<not> duplicate_policy (mkAction ''input'' (ev_on ''#q'') (env_at 59000 0) 1000)
          (mkAction ''input'' (ev_on ''#q'') (env_at 100500 0) 100000)
   \<and> \<not> duplicate_policy (mkAction ''input'' (ev_on ''#q'') (env_at 59000 0) 1000)
          (mkAction ''input'' (ev_on ''#q'') (env_at 101000 0) 100000)
   \<and> \<not> duplicate_policy (mkAction ''input'' (ev_on ''#q'') (env_at 59000 0) 1000)
          (mkAction ''input'' (ev_on ''#q'') (env_at 129000 0) 100000)
   \<and> fst (outcome_state (stopRecording (env_at 1300 412) two_bursts))
     = Some \<lparr>sid = ''1000'', startTime = 1000,
             pages = [Closed \<lparr>url = ''https://example.test/'', title = ''Example'',
                             ptimestamp = 1000, endTime = Some 1300,
                             pactions =
                               [mkScrollAction 220 \<lparr>px = 0, py = 400\<rparr> \<lparr>px = 0, py = 100\<rparr>
                                  \<lparr>px = 1280, py = 720\<rparr>,
                                mkScrollAction 300 \<lparr>px = 0, py = 412\<rparr> \<lparr>px = 0, py = 404\<rparr>
                                  \<lparr>px = 1280, py = 720\<rparr>]\<rparr>]\<rparr>
   \<and> duplicate_policy
         (mkScrollAction 220 \<lparr>px = 0, py = 400\<rparr> \<lparr>px = 0, py = 100\<rparr> \<lparr>px = 1280, py = 720\<rparr>)
         (mkScrollAction 300 \<lparr>px = 0, py = 412\<rparr> \<lparr>px = 0, py = 404\<rparr> \<lparr>px = 1280, py = 720\<rparr>)"
proof (intro conjI)
  show "lastRecordedAction restarted = Some (mkAction ''input'' (ev_on ''#q'') (env_at 59000 0) 1000)"
    by (rule restarted_fields)
  show "fst (outcome_state (stopRecording (env_at 130000 0) second_recording))
     = Some \<lparr>sid = ''100000'', startTime = 100000,
             pages = [Closed \<lparr>url = ''https://example.test/'', title = ''Example'',
                             ptimestamp = 100000, endTime = Some 130000, pactions = []\<rparr>]\<rparr>"
    unfolding second_recording_unchanged
    by (simp add: stopRecording_def removeEventListeners_def restarted_fields close_slots_def
        Let_def env_at_def)
  show "\<not> duplicate_policy (mkAction ''input'' (ev_on ''#q'') (env_at 59000 0) 1000)
          (mkAction ''input'' (ev_on ''#q'') (env_at 100500 0) 100000)"
    by (simp add: duplicate_policy_def env_at_def)
  show "\<not> duplicate_policy (mkAction ''input'' (ev_on ''#q'') (env_at 59000 0) 1000)
          (mkAction ''input'' (ev_on ''#q'') (env_at 101000 0) 100000)"
    by (simp add: duplicate_policy_def env_at_def)
  show "\<not> duplicate_policy (mkAction ''input'' (ev_on ''#q'') (env_at 59000 0) 1000)
          (mkAction ''input'' (ev_on ''#q'') (env_at 129000 0) 100000)"
    by (simp add: duplicate_policy_def env_at_def)
  show "fst (outcome_state (stopRecording (env_at 1300 412) two_bursts))
     = Some \<lparr>sid = ''1000'', startTime = 1000,
             pages = [Closed \<lparr>url = ''https://example.test/'', title = ''Example'',
                             ptimestamp = 1000, endTime = Some 1300,
                             pactions =
                               [mkScrollAction 220 \<lparr>px = 0, py = 400\<rparr> \<lparr>px = 0, py = 100\<rparr>
                                  \<lparr>px = 1280, py = 720\<rparr>,
                                mkScrollAction 300 \<lparr>px = 0, py = 412\<rparr> \<lparr>px = 0, py = 404\<rparr>
                                  \<lparr>px = 1280, py = 720\<rparr>]\<rparr>]\<rparr>"
    by (simp add: stopRecording_def removeEventListeners_def two_bursts_fields close_slots_def
        Let_def env_at_def)
  show "duplicate_policy
         (mkScrollAction 220 \<lparr>px = 0, py = 400\<rparr> \<lparr>px = 0, py = 100\<rparr> \<lparr>px = 1280, py = 720\<rparr>)
         (mkScrollAction 300 \<lparr>px = 0, py = 412\<rparr> \<lparr>px = 0, py = 404\<rparr> \<lparr>px = 1280, py = 720\<rparr>)"
    by (simp add: duplicate_policy_def mkScrollAction_def)
qed

section \<open>Resolving a selector at replay time\<close>

text \<open>
  What one lookup against the live DOM gives: an element, nothing, or an exception. The
  lookups themselves (\<open>querySelector\<close>, hit testing, text comparison) belong to the
  browser; the model takes their results as given, one for each strategy and each round
  of the retry loop.
\<close>

datatype 'e found = Found 'e | NotFound | Throws

datatype strategy_id =
  Direct | DataText | Coordinates | Relaxed | Attribute | Fuzzy | Structure

record 'e dom_lookup =
  directQuery :: "'e found"
  strategyResult :: "strategy_id \<Rightarrow> nat \<Rightarrow> 'e found"

text \<open>\<open>findElement\<close> returns an element, the \<open>document\<close>, the \<open>window\<close>, or \<open>null\<close>.\<close>

datatype 'e resolved = Elem 'e | Document | Window

text \<open>
  What a call does besides returning: the lookups in the order made, the errors logged
  through \<open>errorHandler.logError\<close> (for the direct query, or for a strategy with the
  retry number), the busy waits, and the detection metric.
\<close>

datatype find_event =
    Tried strategy_id nat
  | LoggedDirectError
  | LoggedStrategyError nat
  | Paused
  | Detection bool

text \<open>The strategies pushed for a detection mode, in the order pushed.\<close>

definition strategies_for :: "string \<Rightarrow> strategy_id list" where
  "strategies_for detectionMode =
     [DataText]
     @ (if detectionMode = ''flexible'' \<or> detectionMode = ''aggressive''
        then [Coordinates, Relaxed, Attribute] else [])
     @ (if detectionMode = ''aggressive'' then [Fuzzy, Structure] else [])"

text \<open>The inner \<open>for\<close> loop: one round over the strategies.\<close>

fun tryStrategies ::
  "'e dom_lookup \<Rightarrow> strategy_id list \<Rightarrow> nat \<Rightarrow> 'e option \<times> find_event list" where
  "tryStrategies d [] retry = (None, [])"
| "tryStrategies d (k # rest) retry =
     (case strategyResult d k retry of
        Found el \<Rightarrow> (Some el, [Tried k retry, Detection True])
      | NotFound \<Rightarrow>
          (let (r, tr) = tryStrategies d rest retry in (r, Tried k retry # tr))
      | Throws \<Rightarrow>
          (let (r, tr) = tryStrategies d rest retry
           in (r, Tried k retry # LoggedStrategyError (retry + 1) # tr)))"

text \<open>The outer \<open>for\<close> loop, with the busy wait after every round but the last.\<close>

function retryLoop ::
  "'e dom_lookup \<Rightarrow> strategy_id list \<Rightarrow> int \<Rightarrow> nat \<Rightarrow> 'e option \<times> find_event list" where
  "retryLoop d strategies maxR retry =
     (if int retry < maxR then
        (case tryStrategies d strategies retry of
           (Some el, tr) \<Rightarrow> (Some el, tr)
         | (None, tr) \<Rightarrow>
             (let pause = (if int retry < maxR - 1 then [Paused] else []);
                  (r, tr') = retryLoop d strategies maxR (Suc retry)
              in (r, tr @ pause @ tr')))
      else (None, [Detection False]))"
  by pat_completeness auto
termination
  by (relation "measure (\<lambda>(d, strategies, maxR, retry). nat (maxR - int retry))") auto

definition findElement ::
  "settings \<Rightarrow> 'e dom_lookup \<Rightarrow> string option \<Rightarrow> 'e resolved option \<times> find_event list" where
  "findElement st d selector =
     (if selector = None \<or> selector = Some [] then (None, [])
      else if selector = Some ''document'' then (Some Document, [])
      else if selector = Some ''window'' then (Some Window, [])
      else
        case directQuery d of
          Found el \<Rightarrow> (Some (Elem el), [Tried Direct 0])
        | other \<Rightarrow>
            (let logged = (if other = Throws then [LoggedDirectError] else []);
                 (r, tr) = retryLoop d (strategies_for (elementDetection st)) (maxRetries st) 0
             in (map_option Elem r, Tried Direct 0 # logged @ tr)))"

subsection \<open>The pipeline as the specification words it\<close>

text \<open>
  The specification puts the direct query first in the pipeline and retries every
  strategy of the pipeline in each round.
\<close>

definition spec_pipeline :: "string \<Rightarrow> strategy_id list" where
  "spec_pipeline detectionMode = Direct # strategies_for detectionMode"

definition spec_lookup :: "'e dom_lookup \<Rightarrow> 'e dom_lookup" where
  "spec_lookup d = d\<lparr>strategyResult := (strategyResult d)(Direct := \<lambda>r. directQuery d)\<rparr>"

definition resolveSelector_spec ::
  "settings \<Rightarrow> 'e dom_lookup \<Rightarrow> 'e option \<times> find_event list" where
  "resolveSelector_spec st d =
     retryLoop (spec_lookup d) (spec_pipeline (elementDetection st)) (maxRetries st) 0"

text \<open>The first element in a list of lookup results.\<close>

fun first_found :: "'e found list \<Rightarrow> 'e option" where
  "first_found [] = None"
| "first_found (Found el # rest) = Some el"
| "first_found (other # rest) = first_found rest"

text \<open>The results of the strategies over the rounds \<open>from\<close> up to \<open>rounds\<close>, round by round.\<close>

definition round_results :: "'e dom_lookup \<Rightarrow> strategy_id list \<Rightarrow> nat \<Rightarrow> nat \<Rightarrow> 'e found list" where
  "round_results d strategies lo rounds =
     concat (map (\<lambda>r. map (\<lambda>k. strategyResult d k r) strategies) [lo..<rounds])"

text \<open>A page on which no lookup finds anything.\<close>

definition page_without_match :: "nat dom_lookup" where
  "page_without_match = \<lparr>directQuery = NotFound, strategyResult = (\<lambda>k r. NotFound)\<rparr>"

text \<open>The events of a trace that are direct queries.\<close>

fun is_direct_try :: "find_event \<Rightarrow> bool" where
  "is_direct_try (Tried Direct r) = True"
| "is_direct_try other = False"

declare retryLoop.simps [simp del]

lemma is_direct_try_Tried [simp]: "is_direct_try (Tried k r) = (k = Direct)"
  by (cases k) auto

lemma first_found_append:
  "first_found (xs @ ys) = (case first_found xs of Some el \<Rightarrow> Some el | None \<Rightarrow> first_found ys)"
  by (induction xs rule: first_found.induct) auto

lemma tryStrategies_fst:
  "fst (tryStrategies d S r) = first_found (map (\<lambda>k. strategyResult d k r) S)"
  by (induction S) (auto split: found.splits prod.splits)

lemma tryStrategies_trace:
  "Direct \<notin> set S \<Longrightarrow> filter is_direct_try (snd (tryStrategies d S r)) = []"
  "count_list (snd (tryStrategies d S r)) Paused = 0"
  by (induction S) (auto split: found.splits prod.splits)

lemma round_results_step:
  "int r < M \<Longrightarrow>
   round_results d S r (nat M)
     = map (\<lambda>k. strategyResult d k r) S @ round_results d S (Suc r) (nat M)"
  by (simp add: round_results_def upt_conv_Cons)

lemma round_results_done: "\<not> int r < M \<Longrightarrow> round_results d S r (nat M) = []"
  by (simp add: round_results_def)

lemma retryLoop_fst:
  "fst (retryLoop d S M r) = first_found (round_results d S r (nat M))"
proof (induction d S M r rule: retryLoop.induct)
  case (1 d S M r)
  show ?case
  proof (cases "int r < M")
    case False
    then show ?thesis
      by (subst retryLoop.simps) (simp add: round_results_done)
  next
    case True
    obtain res tr where t: "tryStrategies d S r = (res, tr)" by (cases "tryStrategies d S r")
    have ff: "first_found (map (\<lambda>k. strategyResult d k r) S) = res"
      using tryStrategies_fst [of d S r] t by simp
    have rr: "round_results d S r (nat M)
                = map (\<lambda>k. strategyResult d k r) S @ round_results d S (Suc r) (nat M)"
      using True by (rule round_results_step)
    show ?thesis
    proof (cases res)
      case (Some el)
      then show ?thesis
        using True t ff
        by (subst retryLoop.simps) (simp add: rr first_found_append)
    next
      case None
      have ih: "fst (retryLoop d S M (Suc r)) = first_found (round_results d S (Suc r) (nat M))"
        using "1.IH" [OF True _ None refl] t None by simp
      show ?thesis
        using True t ff None ih
        by (subst retryLoop.simps)
          (simp add: rr first_found_append Let_def case_prod_beta)
    qed
  qed
qed

lemma retryLoop_no_direct:
  "Direct \<notin> set S \<Longrightarrow> filter is_direct_try (snd (retryLoop d S M r)) = []"
proof (induction d S M r rule: retryLoop.induct)
  case (1 d S M r)
  show ?case
  proof (cases "int r < M")
    case False
    then show ?thesis by (subst retryLoop.simps) simp
  next
    case True
    obtain res tr where t: "tryStrategies d S r = (res, tr)" by (cases "tryStrategies d S r")
    have nd: "filter is_direct_try tr = []"
      using tryStrategies_trace(1) [OF "1.prems", of d r] t by simp
    show ?thesis
    proof (cases res)
      case (Some el)
      then show ?thesis using True t nd by (subst retryLoop.simps) simp
    next
      case None
      have ih: "filter is_direct_try (snd (retryLoop d S M (Suc r))) = []"
        using "1.IH" [OF True _ None refl] t None "1.prems" by simp
      show ?thesis
        using True t nd None ih
        by (subst retryLoop.simps) (simp add: Let_def case_prod_beta)
    qed
  qed
qed

lemma retryLoop_pauses:
  "fst (retryLoop d S M r) = None \<Longrightarrow>
   count_list (snd (retryLoop d S M r)) Paused = nat M - 1 - r"
proof (induction d S M r rule: retryLoop.induct)
  case (1 d S M r)
  show ?case
  proof (cases "int r < M")
    case False
    then show ?thesis by (subst retryLoop.simps) simp
  next
    case True
    obtain res tr where t: "tryStrategies d S r = (res, tr)" by (cases "tryStrategies d S r")
    have np: "count_list tr Paused = 0"
      using tryStrategies_trace(2) [of d S r] t by simp
    show ?thesis
    proof (cases res)
      case (Some el)
      then have "fst (retryLoop d S M r) = Some el"
        using True t by (subst retryLoop.simps) simp
      with "1.prems" show ?thesis by simp
    next
      case None
      have none': "fst (retryLoop d S M (Suc r)) = None"
        using "1.prems" True t None
        by (subst (asm) retryLoop.simps) (simp add: Let_def case_prod_beta)
      have ih: "count_list (snd (retryLoop d S M (Suc r))) Paused = nat M - 1 - Suc r"
        using "1.IH" [OF True _ None refl] t None none' by simp
      show ?thesis
        using True t np None ih
        by (subst retryLoop.simps) (auto simp: Let_def case_prod_beta)
    qed
  qed
qed

lemma Direct_not_pushed: "Direct \<notin> set (strategies_for m)"
  by (simp add: strategies_for_def)

text \<open>
  Claim C4, as amended. For a selector that is not empty and is neither \<open>document\<close> nor
  \<open>window\<close>: the direct query is made first and exactly once, outside the retry loop.
  If it yields an element, that element is returned. Otherwise the strategies of the
  detection mode are tried in order, round after round, in at most \<open>maxRetries\<close>
  rounds, and the first element any of them yields is returned; \<open>null\<close> is returned
  exactly when no strategy yields an element in any round, and then the call has paused
  \<open>maxRetries - 1\<close> times, once between two rounds.
\<close>

theorem findElement_direct_once_then_rounds:
  assumes sel: "selector \<noteq> []" "selector \<noteq> ''document''" "selector \<noteq> ''window''"
  shows "fst (findElement st d (Some selector))
           = (case directQuery d of
                Found el \<Rightarrow> Some (Elem el)
              | other \<Rightarrow>
                  map_option Elem
                    (first_found
                       (round_results d (strategies_for (elementDetection st)) 0
                          (nat (maxRetries st)))))
       \<and> filter is_direct_try (snd (findElement st d (Some selector))) = [Tried Direct 0]
       \<and> (if fst (findElement st d (Some selector)) = None
          then count_list (snd (findElement st d (Some selector))) Paused
                 = nat (maxRetries st) - 1
          else True)"
proof (cases "directQuery d")
  case (Found el)
  then show ?thesis using sel by (simp add: findElement_def)
next
  case NotFound
  obtain r tr where l: "retryLoop d (strategies_for (elementDetection st)) (maxRetries st) 0 = (r, tr)"
    by (cases "retryLoop d (strategies_for (elementDetection st)) (maxRetries st) 0")
  have r: "r = first_found (round_results d (strategies_for (elementDetection st)) 0
                          (nat (maxRetries st)))"
    using retryLoop_fst [of d "strategies_for (elementDetection st)" "maxRetries st" 0] l by simp
  have nd: "filter is_direct_try tr = []"
    using retryLoop_no_direct [OF Direct_not_pushed, of d "elementDetection st" "maxRetries st" 0] l
    by simp
  have pz: "r = None \<Longrightarrow> count_list tr Paused = nat (maxRetries st) - 1"
    using retryLoop_pauses [of d "strategies_for (elementDetection st)" "maxRetries st" 0] l
    by simp
  show ?thesis using sel NotFound l r nd pz by (auto simp: findElement_def)
next
  case Throws
  obtain r tr where l: "retryLoop d (strategies_for (elementDetection st)) (maxRetries st) 0 = (r, tr)"
    by (cases "retryLoop d (strategies_for (elementDetection st)) (maxRetries st) 0")
  have r: "r = first_found (round_results d (strategies_for (elementDetection st)) 0
                          (nat (maxRetries st)))"
    using retryLoop_fst [of d "strategies_for (elementDetection st)" "maxRetries st" 0] l by simp
  have nd: "filter is_direct_try tr = []"
    using retryLoop_no_direct [OF Direct_not_pushed, of d "elementDetection st" "maxRetries st" 0] l
    by simp
  have pz: "r = None \<Longrightarrow> count_list tr Paused = nat (maxRetries st) - 1"
    using retryLoop_pauses [of d "strategies_for (elementDetection st)" "maxRetries st" 0] l
    by simp
  show ?thesis using sel Throws l r nd pz by (auto simp: findElement_def)
qed

theorem findElement_direct_once_then_rounds_witness:
  "fst (findElement defaultSettings page_without_match (Some ''#gone'')) = None
   \<and> filter is_direct_try (snd (findElement defaultSettings page_without_match (Some ''#gone'')))
       = [Tried Direct 0]
   \<and> count_list (snd (findElement defaultSettings page_without_match (Some ''#gone''))) Paused = 2"
proof -
  have sel: "''#gone'' \<noteq> []" "''#gone'' \<noteq> ''document''" "''#gone'' \<noteq> ''window''"
    by simp_all
  have none: "first_found (round_results page_without_match
                 (strategies_for (elementDetection defaultSettings)) 0
                 (nat (maxRetries defaultSettings))) = None"
    by (simp add: round_results_def strategies_for_def page_without_match_def
        defaultSettings_def upt_conv_Cons eval_nat_numeral)
  have dq: "directQuery page_without_match = NotFound"
    by (simp add: page_without_match_def)
  note t = findElement_direct_once_then_rounds [OF sel, of defaultSettings page_without_match]
  have f: "fst (findElement defaultSettings page_without_match (Some ''#gone'')) = None"
    using t none dq by simp
  have p: "count_list (snd (findElement defaultSettings page_without_match (Some ''#gone''))) Paused
             = nat (maxRetries defaultSettings) - 1"
    using t f by simp
  have mr: "nat (maxRetries defaultSettings) - 1 = 2"
    by (simp add: defaultSettings_def)
  show ?thesis using t f p mr by simp
qed

text \<open>
  Claim C4, as stated, retries the direct query with the other strategies. With two
  retries in strict mode on a page without a match, the code queries the selector once,
  before the first round; under the stated pipeline it would be queried again in the
  second round.
\<close>

theorem direct_query_not_retried_counterexample:
  "findElement (defaultSettings\<lparr>elementDetection := ''strict'', maxRetries := 2\<rparr>)
       page_without_match (Some ''#gone'')
     = (None, [Tried Direct 0, Tried DataText 0, Paused, Tried DataText 1, Detection False])
   \<and> resolveSelector_spec (defaultSettings\<lparr>elementDetection := ''strict'', maxRetries := 2\<rparr>)
       page_without_match
     = (None, [Tried Direct 0, Tried DataText 0, Paused, Tried Direct 1, Tried DataText 1,
               Detection False])"
  by (simp add: findElement_def resolveSelector_spec_def spec_pipeline_def spec_lookup_def
      page_without_match_def strategies_for_def defaultSettings_def retryLoop.simps)

section \<open>Deriving a selector at capture time\<close>






subsection \<open>String operations\<close>


definition js_space :: "char \<Rightarrow> bool" where
  "js_space c = (c \<in> set [CHR '' '', CHR 0x09, CHR 0x0A, CHR 0x0B, CHR 0x0C, CHR 0x0D])"

definition trim :: "string \<Rightarrow> string" where
  "trim s = rev (dropWhile js_space (rev (dropWhile js_space s)))"

text \<open>\<open>s.split(' ')\<close>.\<close>

fun split_spaces :: "string \<Rightarrow> string list" where
  "split_spaces [] = [[]]"
| "split_spaces (c # cs) =
     (if c = CHR '' '' then [] # split_spaces cs
      else (case split_spaces cs of w # ws \<Rightarrow> (c # w) # ws | [] \<Rightarrow> [[c]]))"

text \<open>\<open>xs.join(sep)\<close>.\<close>

fun join :: "string \<Rightarrow> string list \<Rightarrow> string" where
  "join sep [] = []"
| "join sep [x] = x"
| "join sep (x # y # ys) = x @ sep @ join sep (y # ys)"

definition digit :: "nat \<Rightarrow> char" where
  "digit n = ''0123456789'' ! n"

fun show_nat :: "nat \<Rightarrow> string" where
  "show_nat n = (if n < 10 then [digit n] else show_nat (n div 10) @ [digit (n mod 10)])"

declare show_nat.simps [simp del]

definition state_class :: "string \<Rightarrow> bool" where
  "state_class c = (c \<in> set [''hover'', ''active'', ''focus'', ''selected'', ''disabled''])"

text \<open>The class names kept for a selector: non-empty, not a state class, the first \<open>n\<close>.\<close>

definition kept_classes :: "nat \<Rightarrow> string \<Rightarrow> string list" where
  "kept_classes n cn = take n (filter (\<lambda>c. c \<noteq> [] \<and> \<not> state_class c) (split_spaces cn))"

subsection \<open>The strategies\<close>













subsection \<open>The priority list as the specification words it\<close>
















subsection \<open>Claim about the priority order\<close>

lemma trim_Nil [simp]: "trim [] = []"
  by (simp add: trim_def)

lemma trim_nonempty: "trim s \<noteq> [] \<Longrightarrow> s \<noteq> []"
  by auto


lemma kept_classes_Nil [simp]: "kept_classes n [] = []"
  by (simp add: kept_classes_def)



















section \<open>Session files: validation, repair, export and import (popup script)\<close>

text \<open>
  A value as \<open>JSON.parse\<close> gives it. An object is the list of its keys and values in
  insertion order, with no key twice. Numbers are rationals. A session travels through
  \<open>JSON.stringify\<close> and \<open>JSON.parse\<close> unchanged, since it holds nothing but such values.
\<close>

datatype json =
    JNull | JBool bool | JNum rat | JStr string | JArr "json list"
  | JObj "(string \<times> json) list"

text \<open>\<open>o.k\<close> on a value that is not \<open>null\<close>: \<open>None\<close> is \<open>undefined\<close>.\<close>

fun get_prop :: "json \<Rightarrow> string \<Rightarrow> json option" where
  "get_prop (JObj kvs) k = map_of kvs k"
| "get_prop other k = None"

text \<open>JavaScript truthiness.\<close>

fun truthy :: "json option \<Rightarrow> bool" where
  "truthy None = False"
| "truthy (Some JNull) = False"
| "truthy (Some (JBool b)) = b"
| "truthy (Some (JNum n)) = (n \<noteq> 0)"
| "truthy (Some (JStr s)) = (s \<noteq> [])"
| "truthy (Some other) = True"

text \<open>
  \<open>k in o\<close> for the field names the validator asks for: it throws a \<open>TypeError\<close> (here
  \<open>None\<close>) unless \<open>o\<close> is an object or an array, and an array has none of these names.
\<close>

fun in_op :: "string \<Rightarrow> json \<Rightarrow> bool option" where
  "in_op k (JObj kvs) = Some (map_of kvs k \<noteq> None)"
| "in_op k (JArr xs) = Some False"
| "in_op k other = None"

fun isArray :: "json option \<Rightarrow> bool" where
  "isArray (Some (JArr xs)) = True"
| "isArray other = False"

text \<open>\<open>o[k] = v\<close> and \<open>delete o[k]\<close> on the key list of an object.\<close>

fun set_key :: "string \<Rightarrow> json \<Rightarrow> (string \<times> json) list \<Rightarrow> (string \<times> json) list" where
  "set_key k v [] = [(k, v)]"
| "set_key k v ((k', v') # rest) =
     (if k' = k then (k, v) # rest else (k', v') # set_key k v rest)"

definition delete_key :: "string \<Rightarrow> (string \<times> json) list \<Rightarrow> (string \<times> json) list" where
  "delete_key k kvs = filter (\<lambda>kv. fst kv \<noteq> k) kvs"

text \<open>
  What the popup reads from the browser: the clock, whether \<open>new URL(s)\<close> accepts a
  string, the string and the number a value converts to, the message of the
  \<open>TypeError\<close> that \<open>k in v\<close> throws, the location and title of the popup document, and
  the ISO form of the current date.
\<close>

record venv =
  vnow :: int
  validUrl :: "string \<Rightarrow> bool"
  toStr :: "json \<Rightarrow> string"
  toNumber :: "json \<Rightarrow> rat option"
  inErrorMessage :: "string \<Rightarrow> json \<Rightarrow> string"
  repairErrorMessage :: "json \<Rightarrow> string"
  locationHref :: string
  documentTitle :: string
  isoNow :: string

text \<open>A value inside a template literal; \<open>undefined\<close> prints as such.\<close>

definition template :: "venv \<Rightarrow> json option \<Rightarrow> string" where
  "template e v = (case v of None \<Rightarrow> ''undefined'' | Some j \<Rightarrow> toStr e j)"

subsection \<open>The validator\<close>

record validation_state =
  issues :: "string list"
  warnings :: "string list"

definition validActionTypes :: "string list" where
  "validActionTypes =
     [''click'', ''dblclick'', ''keydown'', ''keyup'', ''input'', ''change'',
      ''submit'', ''scroll'', ''mousemove'', ''resize'']"

definition add_issue :: "string \<Rightarrow> validation_state \<Rightarrow> validation_state" where
  "add_issue msg st = st\<lparr>issues := issues st @ [msg]\<rparr>"

definition add_warning :: "string \<Rightarrow> validation_state \<Rightarrow> validation_state" where
  "add_warning msg st = st\<lparr>warnings := warnings st @ [msg]\<rparr>"

text \<open>
  The loop over the required fields of a page or an action: an issue for each field the
  value lacks. A thrown exception carries its message.
\<close>

datatype 'a attempt = Done 'a | Raised string 'a

fun requireFields ::
  "venv \<Rightarrow> string \<Rightarrow> string list \<Rightarrow> json \<Rightarrow> validation_state \<Rightarrow> validation_state attempt" where
  "requireFields e pre [] v st = Done st"
| "requireFields e pre (field # rest) v st =
     (case in_op field v of
        None \<Rightarrow> Raised (inErrorMessage e field v) st
      | Some present \<Rightarrow>
          requireFields e pre rest v
            (if present then st
             else add_issue (pre @ '': Missing required field: '' @ field) st))"

definition isString :: "json option \<Rightarrow> string \<Rightarrow> bool" where
  "isString v s = (v = Some (JStr s))"

definition validateAction ::
  "venv \<Rightarrow> string \<Rightarrow> nat \<Rightarrow> json \<Rightarrow> validation_state \<Rightarrow> validation_state attempt" where
  "validateAction e ctx actionIndex a st =
     (let pre = ctx @ '', action '' @ show_nat actionIndex in
      case requireFields e pre [''type'', ''timestamp'', ''target''] a st of
        Raised msg st' \<Rightarrow> Raised msg st'
      | Done st1 \<Rightarrow>
          let ty = get_prop a ''type'';
              st2 = (if truthy ty \<and> \<not> (\<exists>t \<in> set validActionTypes. isString ty t)
                     then add_warning (pre @ '': Unknown action type: '' @ template e ty) st1
                     else st1);
              ts = get_prop a ''timestamp'';
              st3 = (if truthy ts
                        \<and> (case ts of Some (JNum n) \<Rightarrow> n < 0 | other \<Rightarrow> True)
                     then add_issue (pre @ '': Invalid timestamp: '' @ template e ts) st2
                     else st2);
              co = get_prop a ''coordinates'';
              st4 = (if (\<exists>t \<in> set [''click'', ''dblclick'', ''mousemove'']. isString ty t)
                        \<and> (\<not> truthy co
                           \<or> (case co of Some (JObj kvs) \<Rightarrow> False | Some (JArr xs) \<Rightarrow> False
                               | other \<Rightarrow> True))
                     then add_warning (pre @ '': Missing coordinates for '' @ template e ty
                                       @ '' action'') st3
                     else st3)
          in Done st4)"

fun validateActionsFrom ::
  "venv \<Rightarrow> string \<Rightarrow> nat \<Rightarrow> json list \<Rightarrow> validation_state \<Rightarrow> validation_state attempt" where
  "validateActionsFrom e ctx i [] st = Done st"
| "validateActionsFrom e ctx i (a # rest) st =
     (case validateAction e ctx i a st of
        Raised msg st' \<Rightarrow> Raised msg st'
      | Done st' \<Rightarrow> validateActionsFrom e ctx (Suc i) rest st')"

definition validateActions ::
  "venv \<Rightarrow> json option \<Rightarrow> string \<Rightarrow> validation_state \<Rightarrow> validation_state attempt" where
  "validateActions e actions ctx st =
     (case actions of
        Some (JArr xs) \<Rightarrow> validateActionsFrom e ctx 0 xs st
      | other \<Rightarrow> Done (add_issue (ctx @ '': Actions is not an array'') st))"

definition validatePage ::
  "venv \<Rightarrow> json \<Rightarrow> nat \<Rightarrow> validation_state \<Rightarrow> validation_state attempt" where
  "validatePage e page pageIndex st =
     (case requireFields e (''Page '' @ show_nat pageIndex)
             [''url'', ''title'', ''timestamp'', ''actions''] page st of
        Raised msg st' \<Rightarrow> Raised msg st'
      | Done st1 \<Rightarrow>
          let u = get_prop page ''url'';
              st2 = (if truthy u \<and> \<not> (case u of Some (JStr s) \<Rightarrow> validUrl e s
                                           | other \<Rightarrow> validUrl e (template e u))
                     then add_warning (''Page '' @ show_nat pageIndex @ '': Invalid URL format: ''
                                       @ template e u) st1
                     else st1)
          in if truthy (get_prop page ''actions'') \<and> isArray (get_prop page ''actions'')
             then validateActions e (get_prop page ''actions'') (''page '' @ show_nat pageIndex) st2
             else Done st2)"

fun validatePagesFrom ::
  "venv \<Rightarrow> nat \<Rightarrow> json list \<Rightarrow> validation_state \<Rightarrow> validation_state attempt" where
  "validatePagesFrom e i [] st = Done st"
| "validatePagesFrom e i (p # rest) st =
     (case validatePage e p i st of
        Raised msg st' \<Rightarrow> Raised msg st'
      | Done st' \<Rightarrow> validatePagesFrom e (Suc i) rest st')"

text \<open>The loop over the required fields of the session, with the legacy exception.\<close>

fun requireSessionFields ::
  "string list \<Rightarrow> json \<Rightarrow> validation_state \<Rightarrow> validation_state" where
  "requireSessionFields [] session st = st"
| "requireSessionFields (field # rest) session st =
     requireSessionFields rest session
       (if in_op field session = Some True then st
        else if field = ''pages'' \<and> truthy (get_prop session ''actions'')
        then add_warning ''Legacy session format detected (actions instead of pages)'' st
        else add_issue (''Missing required session field: '' @ field) st)"

definition canRepairSession :: "string list \<Rightarrow> bool" where
  "canRepairSession iss =
     (length (filter (\<lambda>issue. str_includes issue ''Missing required field''
                              \<and> \<not> str_includes issue ''id''
                              \<and> \<not> str_includes issue ''type'') iss)
      = length iss)"

record validation =
  isValid :: bool
  vissues :: "string list"
  vwarnings :: "string list"
  canRepair :: bool

definition year_ms :: rat where
  "year_ms = 365 * 24 * 60 * 60 * 1000"

text \<open>The body of the \<open>try\<close> block of \<open>validateSession\<close>, for an object or an array.\<close>

definition validateStructure ::
  "venv \<Rightarrow> json \<Rightarrow> validation_state \<Rightarrow> validation_state attempt" where
  "validateStructure e session st =
     (let st1 = requireSessionFields [''id'', ''startTime'', ''pages''] session st;
          r = (if truthy (get_prop session ''pages'') \<and> isArray (get_prop session ''pages'')
               then (case get_prop session ''pages'' of
                       Some (JArr ps) \<Rightarrow> validatePagesFrom e 0 ps st1
                     | other \<Rightarrow> Done st1)
               else if truthy (get_prop session ''actions'') \<and> isArray (get_prop session ''actions'')
               then validateActions e (get_prop session ''actions'') ''session'' st1
               else Done (add_issue ''Session has no pages or actions'' st1))
      in case r of
           Raised msg st' \<Rightarrow> Raised msg st'
         | Done st2 \<Rightarrow>
             let stt = get_prop session ''startTime'' in
             Done (if truthy stt
                      \<and> (case (case stt of Some (JNum n) \<Rightarrow> Some n | Some other \<Rightarrow> toNumber e other
                                  | None \<Rightarrow> None) of
                            None \<Rightarrow> False
                          | Some n \<Rightarrow> of_int (vnow e) - n > year_ms)
                   then add_warning ''Session is more than a year old'' st2
                   else st2))"

definition validateSession :: "venv \<Rightarrow> json \<Rightarrow> validation" where
  "validateSession e session =
     (case session of
        JObj kvs \<Rightarrow>
          (let st = (case validateStructure e session \<lparr>issues = [], warnings = []\<rparr> of
                       Done st' \<Rightarrow> st'
                     | Raised msg st' \<Rightarrow> add_issue (''Validation error: '' @ msg) st')
           in \<lparr>isValid = (issues st = []), vissues = issues st, vwarnings = warnings st,
               canRepair = canRepairSession (issues st)\<rparr>)
      | JArr xs \<Rightarrow>
          (let st = (case validateStructure e session \<lparr>issues = [], warnings = []\<rparr> of
                       Done st' \<Rightarrow> st'
                     | Raised msg st' \<Rightarrow> add_issue (''Validation error: '' @ msg) st')
           in \<lparr>isValid = (issues st = []), vissues = issues st, vwarnings = warnings st,
               canRepair = canRepairSession (issues st)\<rparr>)
      | other \<Rightarrow>
          \<lparr>isValid = False, vissues = [''Invalid session: not an object''], vwarnings = [],
           canRepair = False\<rparr>)"

subsection \<open>The repair\<close>

text \<open>
  The callback of \<open>page.actions.filter\<close>: reading a field of \<open>null\<close> throws (\<open>None\<close>).
\<close>

fun keepAction :: "json \<Rightarrow> bool option" where
  "keepAction JNull = None"
| "keepAction a =
     Some (truthy (get_prop a ''type'') \<and> get_prop a ''timestamp'' \<noteq> None
           \<and> get_prop a ''target'' \<noteq> None)"

fun filterActions :: "json list \<Rightarrow> json list option" where
  "filterActions [] = Some []"
| "filterActions (a # rest) =
     (case keepAction a of
        None \<Rightarrow> None
      | Some keep \<Rightarrow>
          (case filterActions rest of
             None \<Rightarrow> None
           | Some kept \<Rightarrow> Some (if keep then a # kept else kept)))"

definition fill_key ::
  "string \<Rightarrow> json \<Rightarrow> string \<Rightarrow> (string \<times> json) list \<times> string list
     \<Rightarrow> (string \<times> json) list \<times> string list" where
  "fill_key k v msg st =
     (case st of (kvs, repairs) \<Rightarrow>
        if truthy (map_of kvs k) then (kvs, repairs) else (set_key k v kvs, repairs @ [msg]))"

text \<open>
  One round of the \<open>forEach\<close> over the pages. A page that is an array takes the four
  assignments as named properties, which a JSON value does not show; its \<open>actions\<close>
  property is then the empty array just assigned.
\<close>

definition repairPage ::
  "venv \<Rightarrow> json option \<Rightarrow> nat \<Rightarrow> json \<Rightarrow> string list \<Rightarrow> (json \<times> string list) attempt" where
  "repairPage e startTimeValue pageIndex page repairs =
     (let ix = show_nat pageIndex;
          generated =
            [''Generated missing URL for page '' @ ix,
             ''Generated missing title for page '' @ ix,
             ''Generated missing timestamp for page '' @ ix,
             ''Generated missing actions array for page '' @ ix]
      in case page of
           JObj kvs \<Rightarrow>
             (case fill_key ''actions'' (JArr [])
                     (''Generated missing actions array for page '' @ ix)
                     (fill_key ''timestamp'' (case startTimeValue of None \<Rightarrow> JNull | Some v \<Rightarrow> v)
                        (''Generated missing timestamp for page '' @ ix)
                        (fill_key ''title'' (JStr (''Page '' @ show_nat (pageIndex + 1)))
                           (''Generated missing title for page '' @ ix)
                           (fill_key ''url'' (JStr ''about:blank'')
                              (''Generated missing URL for page '' @ ix) (kvs, repairs)))) of
                (kvs1, repairs1) \<Rightarrow>
                  (case map_of kvs1 ''actions'' of
                     Some (JArr acts) \<Rightarrow>
                       (case filterActions acts of
                          None \<Rightarrow> Raised (repairErrorMessage e page) (JObj kvs1, repairs1)
                        | Some kept \<Rightarrow>
                            Done (JObj (set_key ''actions'' (JArr kept) kvs1),
                                  if length kept < length acts
                                  then repairs1 @ [''Removed '' @ show_nat (length acts - length kept)
                                                   @ '' invalid actions from page '' @ ix]
                                  else repairs1))
                   | other \<Rightarrow> Raised (repairErrorMessage e page) (JObj kvs1, repairs1)))
         | JArr xs \<Rightarrow> Done (JArr xs, repairs @ generated)
         | other \<Rightarrow> Raised (repairErrorMessage e page) (page, repairs))"

fun repairPagesFrom ::
  "venv \<Rightarrow> json option \<Rightarrow> nat \<Rightarrow> json list \<Rightarrow> string list
     \<Rightarrow> (json list \<times> string list) attempt" where
  "repairPagesFrom e stv i [] repairs = Done ([], repairs)"
| "repairPagesFrom e stv i (p # rest) repairs =
     (case repairPage e stv i p repairs of
        Raised msg (p', repairs') \<Rightarrow> Raised msg (p' # rest, repairs')
      | Done (p', repairs') \<Rightarrow>
          (case repairPagesFrom e stv (Suc i) rest repairs' of
             Raised msg (ps, repairs'') \<Rightarrow> Raised msg (p' # ps, repairs'')
           | Done (ps, repairs'') \<Rightarrow> Done (p' # ps, repairs'')))"

text \<open>\<open>a || b\<close>.\<close>

definition or_else :: "json option \<Rightarrow> json \<Rightarrow> json" where
  "or_else a b = (case a of Some v \<Rightarrow> if truthy a then v else b | None \<Rightarrow> b)"

text \<open>
  \<open>repairSession\<close> on the deep clone of an object: the repaired object and the list of
  repairs. The validator marks nothing but objects as repairable.
\<close>

definition repairSession ::
  "venv \<Rightarrow> (string \<times> json) list \<Rightarrow> (string \<times> json) list \<times> string list" where
  "repairSession e kvs =
     (case fill_key ''startTime'' (JNum (of_int (vnow e))) ''Generated missing startTime''
             (fill_key ''id'' (JStr (show_nat (nat (vnow e)))) ''Generated missing session ID''
                (kvs, [])) of
        (kvs1, repairs1) \<Rightarrow>
          (case (if \<not> truthy (map_of kvs1 ''pages'') \<and> truthy (map_of kvs1 ''actions'')
                 then (delete_key ''title'' (delete_key ''url'' (delete_key ''actions''
                         (set_key ''pages''
                            (JArr [JObj [(''url'', or_else (map_of kvs1 ''url'') (JStr (locationHref e))),
                                         (''title'', or_else (map_of kvs1 ''title'')
                                                       (JStr (documentTitle e))),
                                         (''timestamp'', (case map_of kvs1 ''startTime'' of
                                                            None \<Rightarrow> JNull | Some v \<Rightarrow> v)),
                                         (''actions'', (case map_of kvs1 ''actions'' of
                                                          None \<Rightarrow> JNull | Some v \<Rightarrow> v))]])
                            kvs1))),
                       repairs1 @ [''Converted legacy session format''])
                 else (kvs1, repairs1)) of
             (kvs2, repairs2) \<Rightarrow>
               (case map_of kvs2 ''pages'' of
                  Some (JArr ps) \<Rightarrow>
                    (case repairPagesFrom e (map_of kvs2 ''startTime'') 0 ps repairs2 of
                       Done (ps', repairs3) \<Rightarrow> (set_key ''pages'' (JArr ps') kvs2, repairs3)
                     | Raised msg (ps', repairs3) \<Rightarrow>
                         (set_key ''pages'' (JArr ps') kvs2,
                          repairs3 @ [''Repair error: '' @ msg]))
                | other \<Rightarrow> (kvs2, repairs2))))"

subsection \<open>Export and import\<close>

text \<open>The object \<open>exportSession\<close> serialises: the session with the three keys added.\<close>

definition exportData :: "venv \<Rightarrow> json \<Rightarrow> (string \<times> json) list \<Rightarrow> json" where
  "exportData e settingsValue selectedSession =
     JObj (set_key ''settings'' settingsValue
            (set_key ''version'' (JStr ''1.0.0'')
               (set_key ''exportedAt'' (JStr (isoNow e)) selectedSession)))"

text \<open>
  \<open>importSession\<close> on the parsed file and the stored sessions: either the new store with
  the status line, or the message of the error that was caught, the store untouched.
\<close>

datatype import_result =
    Stored "(string \<times> json) list" string
  | Failed string

definition importSession ::
  "venv \<Rightarrow> json \<Rightarrow> (string \<times> json) list \<Rightarrow> import_result" where
  "importSession e sessionData sessions =
     (let v = validateSession e sessionData;
          store = (\<lambda>kvs statusMessage.
                     Stored (set_key (show_nat (nat (vnow e)))
                               (JObj (set_key ''importedAt'' (JStr (isoNow e))
                                        (set_key ''id'' (JStr (show_nat (nat (vnow e)))) kvs)))
                               sessions)
                            statusMessage)
      in case sessionData of
           JObj kvs \<Rightarrow>
             if \<not> isValid v then
               (if canRepair v then
                  (case repairSession e kvs of
                     (repaired, repairs) \<Rightarrow>
                       store repaired (''Session repaired and imported (''
                                       @ show_nat (length repairs) @ '' fixes applied)''))
                else Failed (''Invalid session: '' @ join '', '' (vissues v)))
             else if vwarnings v \<noteq> [] then
               store kvs (''Session imported with warnings (''
                          @ show_nat (length (vwarnings v)) @ '' warnings)'')
             else store kvs ''Session imported successfully''
         | other \<Rightarrow> Failed (''Invalid session: '' @ join '', '' (vissues v)))"

text \<open>A sample browser for the popup, and a sample session recorded at clock reading 1000.\<close>

definition sample_venv :: "int \<Rightarrow> venv" where
  "sample_venv t =
     \<lparr>vnow = t, validUrl = (\<lambda>u. True), toStr = (\<lambda>j. ''?''), toNumber = (\<lambda>j. None),
      inErrorMessage = (\<lambda>k j. ''Cannot use in operator''),
      repairErrorMessage = (\<lambda>j. ''Cannot read properties''),
      locationHref = ''chrome-extension://popup.html'', documentTitle = ''FlowTrace'',
      isoNow = ''2026-01-01T00:00:00.000Z''\<rparr>"

definition sample_session :: "(string \<times> json) list" where
  "sample_session = [(''id'', JStr ''1000''), (''startTime'', JNum 1000), (''pages'', JArr [])]"

subsection \<open>Claims about export, import and repair\<close>

lemma map_of_set_key:
  "map_of (set_key k v kvs) k' = (if k' = k then Some v else map_of kvs k')"
  by (induction kvs) auto

lemma validateStructure_same_keys:
  assumes "\<forall>k \<in> {''id'', ''startTime'', ''pages'', ''actions''}. map_of kvs' k = map_of kvs k"
  shows "validateStructure e (JObj kvs') st = validateStructure e (JObj kvs) st"
proof -
  have k: "map_of kvs' ''id'' = map_of kvs ''id''" "map_of kvs' ''startTime'' = map_of kvs ''startTime''"
    "map_of kvs' ''pages'' = map_of kvs ''pages''" "map_of kvs' ''actions'' = map_of kvs ''actions''"
    using assms by simp_all
  show ?thesis
    by (simp only: validateStructure_def requireSessionFields.simps get_prop.simps in_op.simps k)
qed

lemma validateSession_export:
  "validateSession e (exportData ex settingsValue kvs) = validateSession e (JObj kvs)"
proof -
  have "validateStructure e (exportData ex settingsValue kvs) st = validateStructure e (JObj kvs) st"
    for st
    unfolding exportData_def
    by (rule validateStructure_same_keys) (simp add: map_of_set_key)
  then show ?thesis
    by (simp add: validateSession_def exportData_def)
qed

text \<open>
  A session as the recorder leaves it: one page with a click and an input, recorded from
  clock reading 1000 to 3000.
\<close>

definition sample_recorded_session :: "(string \<times> json) list" where
  "sample_recorded_session =
     [(''id'', JStr ''1000''), (''startTime'', JNum 1000),
      (''pages'',
       JArr [JObj [(''url'', JStr ''https://example.test/''), (''title'', JStr ''Example''),
                   (''timestamp'', JNum 1000),
                   (''actions'',
                    JArr [JObj [(''type'', JStr ''click''), (''timestamp'', JNum 200),
                                (''target'', JStr ''#go''),
                                (''coordinates'', JObj [(''x'', JNum 100), (''y'', JNum 200)])],
                          JObj [(''type'', JStr ''input''), (''timestamp'', JNum 450),
                                (''target'', JStr ''#q''), (''value'', JStr ''abc'')]]),
                   (''endTime'', JNum 3000)]])]"

text \<open>
  Claim C3, as amended. Take a session object that the validator accepts at import time.
  Exporting it and importing the exported data stores one object, under the key that is
  the clock reading at import. That object has this clock reading as its \<open>id\<close>, the
  date of the import as \<open>importedAt\<close>, the date of the export as \<open>exportedAt\<close>, the
  version 1.0.0 and the exported settings; on every other key it is the original. The
  rest of the store stays as it was, and the status line tells whether the validator had
  warnings.
\<close>

theorem export_import_roundtrip_except_id:
  assumes valid: "isValid (validateSession e (JObj kvs))"
  shows "\<exists>r. importSession e (exportData ex settingsValue kvs) sessions
               = Stored (set_key (show_nat (nat (vnow e))) (JObj r) sessions)
                   (if vwarnings (validateSession e (JObj kvs)) \<noteq> []
                    then ''Session imported with warnings (''
                         @ show_nat (length (vwarnings (validateSession e (JObj kvs))))
                         @ '' warnings)''
                    else ''Session imported successfully'')
           \<and> (\<forall>k. map_of r k =
                 (if k = ''importedAt'' then Some (JStr (isoNow e))
                  else if k = ''id'' then Some (JStr (show_nat (nat (vnow e))))
                  else if k = ''settings'' then Some settingsValue
                  else if k = ''version'' then Some (JStr ''1.0.0'')
                  else if k = ''exportedAt'' then Some (JStr (isoNow ex))
                  else map_of kvs k))
           \<and> (\<forall>k. map_of (set_key (show_nat (nat (vnow e))) (JObj r) sessions) k =
                 (if k = show_nat (nat (vnow e)) then Some (JObj r) else map_of sessions k))"
proof -
  let ?x = "set_key ''settings'' settingsValue
              (set_key ''version'' (JStr ''1.0.0'')
                 (set_key ''exportedAt'' (JStr (isoNow ex)) kvs))"
  let ?r = "set_key ''importedAt'' (JStr (isoNow e))
              (set_key ''id'' (JStr (show_nat (nat (vnow e)))) ?x)"
  have v: "validateSession e (exportData ex settingsValue kvs) = validateSession e (JObj kvs)"
    by (rule validateSession_export)
  have x: "exportData ex settingsValue kvs = JObj ?x"
    by (simp add: exportData_def)
  have imp: "importSession e (exportData ex settingsValue kvs) sessions
               = Stored (set_key (show_nat (nat (vnow e))) (JObj ?r) sessions)
                   (if vwarnings (validateSession e (JObj kvs)) \<noteq> []
                    then ''Session imported with warnings (''
                         @ show_nat (length (vwarnings (validateSession e (JObj kvs))))
                         @ '' warnings)''
                    else ''Session imported successfully'')"
    using valid unfolding importSession_def v unfolding x by (simp add: Let_def)
  have keys: "\<forall>k. map_of ?r k =
                 (if k = ''importedAt'' then Some (JStr (isoNow e))
                  else if k = ''id'' then Some (JStr (show_nat (nat (vnow e))))
                  else if k = ''settings'' then Some settingsValue
                  else if k = ''version'' then Some (JStr ''1.0.0'')
                  else if k = ''exportedAt'' then Some (JStr (isoNow ex))
                  else map_of kvs k)"
    by (simp add: map_of_set_key)
  have store: "\<forall>k. map_of (set_key (show_nat (nat (vnow e))) (JObj ?r) sessions) k =
                 (if k = show_nat (nat (vnow e)) then Some (JObj ?r) else map_of sessions k)"
    by (simp add: map_of_set_key)
  from imp keys store show ?thesis by (intro exI [of _ ?r] conjI)
qed

lemma sample_recorded_session_valid:
  "validateSession (sample_venv 2000) (JObj sample_recorded_session)
     = \<lparr>isValid = True, vissues = [], vwarnings = [], canRepair = True\<rparr>"
proof -
  have n: "show_nat 0 = ''0''" "show_nat 1 = ''1''" "show_nat (Suc 0) = ''1''"
    by code_simp+
  show ?thesis
    by (simp add: validateSession_def validateStructure_def validatePage_def validateActions_def
        validateAction_def validActionTypes_def isString_def canRepairSession_def
        sample_recorded_session_def sample_venv_def year_ms_def n Let_def)
qed

theorem export_import_roundtrip_except_id_witness:
  "\<exists>r. importSession (sample_venv 2000)
          (exportData (sample_venv 1500) (JObj [(''speed'', JNum 1)]) sample_recorded_session)
          [(''1000'', JObj sample_recorded_session)]
        = Stored [(''1000'', JObj sample_recorded_session), (''2000'', JObj r)]
            ''Session imported successfully''
      \<and> map_of r ''id'' = Some (JStr ''2000'')
      \<and> map_of r ''startTime'' = map_of sample_recorded_session ''startTime''
      \<and> map_of r ''pages'' = map_of sample_recorded_session ''pages''
      \<and> map_of r ''settings'' = Some (JObj [(''speed'', JNum 1)])
      \<and> map_of r ''version'' = Some (JStr ''1.0.0'')"
proof -
  have n: "show_nat (nat (vnow (sample_venv 2000))) = ''2000''"
    unfolding sample_venv_def by code_simp
  have valid: "isValid (validateSession (sample_venv 2000) (JObj sample_recorded_session))"
    by (simp add: sample_recorded_session_valid)
  have w: "vwarnings (validateSession (sample_venv 2000) (JObj sample_recorded_session)) = []"
    by (simp add: sample_recorded_session_valid)
  from export_import_roundtrip_except_id [OF valid, of "sample_venv 1500"
      "JObj [(''speed'', JNum 1)]" "[(''1000'', JObj sample_recorded_session)]"]
  obtain r where
    r: "importSession (sample_venv 2000)
          (exportData (sample_venv 1500) (JObj [(''speed'', JNum 1)]) sample_recorded_session)
          [(''1000'', JObj sample_recorded_session)]
        = Stored (set_key (show_nat (nat (vnow (sample_venv 2000)))) (JObj r)
                    [(''1000'', JObj sample_recorded_session)])
            (if vwarnings (validateSession (sample_venv 2000) (JObj sample_recorded_session)) \<noteq> []
             then ''Session imported with warnings (''
                  @ show_nat (length (vwarnings (validateSession (sample_venv 2000)
                                                   (JObj sample_recorded_session))))
                  @ '' warnings)''
             else ''Session imported successfully'')"
    and k: "\<forall>k. map_of r k =
                 (if k = ''importedAt'' then Some (JStr (isoNow (sample_venv 2000)))
                  else if k = ''id'' then Some (JStr (show_nat (nat (vnow (sample_venv 2000)))))
                  else if k = ''settings'' then Some (JObj [(''speed'', JNum 1)])
                  else if k = ''version'' then Some (JStr ''1.0.0'')
                  else if k = ''exportedAt'' then Some (JStr (isoNow (sample_venv 1500)))
                  else map_of sample_recorded_session k)"
    by (elim exE conjE)
  have r': "importSession (sample_venv 2000)
          (exportData (sample_venv 1500) (JObj [(''speed'', JNum 1)]) sample_recorded_session)
          [(''1000'', JObj sample_recorded_session)]
        = Stored [(''1000'', JObj sample_recorded_session), (''2000'', JObj r)]
            ''Session imported successfully''"
    unfolding r n w by simp
  have "map_of r ''id'' = Some (JStr ''2000'')"
    using k [rule_format, of "''id''"] unfolding n by simp
  moreover have "map_of r ''startTime'' = map_of sample_recorded_session ''startTime''"
    using k [rule_format, of "''startTime''"] by simp
  moreover have "map_of r ''pages'' = map_of sample_recorded_session ''pages''"
    using k [rule_format, of "''pages''"] by simp
  moreover have "map_of r ''settings'' = Some (JObj [(''speed'', JNum 1)])"
    using k [rule_format, of "''settings''"] by simp
  moreover have "map_of r ''version'' = Some (JStr ''1.0.0'')"
    using k [rule_format, of "''version''"] by simp
  ultimately show ?thesis using r' by (intro exI [of _ r] conjI)
qed

text \<open>
  Claim C3, as stated, has the stored session equal to the original in all its fields.
  The sample session has id 1000; imported at clock reading 2000 it is stored with id
  2000, and with \<open>importedAt\<close> beside the export metadata.
\<close>

theorem reimport_changes_id_counterexample:
  "importSession (sample_venv 2000) (exportData (sample_venv 1500) JNull sample_session) []
     = Stored [(''2000'',
                JObj [(''id'', JStr ''2000''), (''startTime'', JNum 1000), (''pages'', JArr []),
                      (''exportedAt'', JStr ''2026-01-01T00:00:00.000Z''),
                      (''version'', JStr ''1.0.0''), (''settings'', JNull),
                      (''importedAt'', JStr ''2026-01-01T00:00:00.000Z'')])]
         ''Session imported successfully''
   \<and> map_of sample_session ''id'' = Some (JStr ''1000'')"
proof -
  have n: "show_nat 2000 = ''2000''"
    by code_simp
  have v: "validateSession (sample_venv 2000) (exportData (sample_venv 1500) JNull sample_session)
             = \<lparr>isValid = True, vissues = [], vwarnings = [], canRepair = True\<rparr>"
    unfolding validateSession_export
    by (simp add: validateSession_def validateStructure_def sample_session_def sample_venv_def
        year_ms_def canRepairSession_def)
  show ?thesis
    by (simp add: importSession_def v Let_def n)
      (simp add: exportData_def sample_session_def sample_venv_def n)
qed

text \<open>
  Claim C9 at a session whose only issue is the missing \<open>startTime\<close>, a required field
  that is neither an id nor a type. The claim has it repaired and stored. The issue reads
  "Missing required session field: startTime", \<open>canRepairSession\<close> looks for "Missing
  required field", so the import is rejected; \<open>repairSession\<close>, had it been called, would
  have generated the missing \<open>startTime\<close>.
\<close>

theorem missing_startTime_is_rejected:
  "importSession e (JObj [(''id'', JStr ''1''), (''pages'', JArr [])]) sessions
     = Failed ''Invalid session: Missing required session field: startTime''
   \<and> repairSession e [(''id'', JStr ''1''), (''pages'', JArr [])]
     = ([(''id'', JStr ''1''), (''pages'', JArr []), (''startTime'', JNum (of_int (vnow e)))],
        [''Generated missing startTime''])"
proof -
  have inc: "\<not> str_includes ''Missing required session field: startTime'' ''Missing required field''"
    by simp
  have v: "validateSession e (JObj [(''id'', JStr ''1''), (''pages'', JArr [])])
             = \<lparr>isValid = False, vissues = [''Missing required session field: startTime''],
                vwarnings = [], canRepair = False\<rparr>"
    by (simp add: validateSession_def validateStructure_def add_issue_def canRepairSession_def inc)
  have a: "importSession e (JObj [(''id'', JStr ''1''), (''pages'', JArr [])]) sessions
     = Failed ''Invalid session: Missing required session field: startTime''"
    by (simp add: importSession_def v Let_def)
  have b: "repairSession e [(''id'', JStr ''1''), (''pages'', JArr [])]
     = ([(''id'', JStr ''1''), (''pages'', JArr []), (''startTime'', JNum (of_int (vnow e)))],
        [''Generated missing startTime''])"
    by (simp add: repairSession_def fill_key_def)
  from a b show ?thesis by (rule conjI)
qed

text \<open>Only an object can come out of the validator as repairable.\<close>

lemma validateSession_array:
  "validateSession e (JArr xs)
     = \<lparr>isValid = False,
        vissues = [''Missing required session field: id'',
                   ''Missing required session field: startTime'',
                   ''Missing required session field: pages'',
                   ''Session has no pages or actions''],
        vwarnings = [], canRepair = False\<rparr>"
  by (simp add: validateSession_def validateStructure_def add_issue_def canRepairSession_def)

lemma repairable_is_object:
  "canRepair (validateSession e j) \<Longrightarrow> \<exists>kvs. j = JObj kvs"
  by (cases j) (simp_all add: validateSession_array, simp_all add: validateSession_def)

text \<open>A missing field of a page, by contrast, is repaired and the session stored.\<close>

lemma missing_page_title_is_repaired:
  "importSession (sample_venv 2000)
     (JObj [(''id'', JStr ''1''), (''startTime'', JNum 5),
            (''pages'', JArr [JObj [(''url'', JStr ''u''), (''timestamp'', JNum 5),
                                    (''actions'', JArr [])]])]) []
   = Stored [(''2000'',
              JObj [(''id'', JStr ''2000''), (''startTime'', JNum 5),
                    (''pages'', JArr [JObj [(''url'', JStr ''u''), (''timestamp'', JNum 5),
                                            (''actions'', JArr []), (''title'', JStr ''Page 1'')]]),
                    (''importedAt'', JStr ''2026-01-01T00:00:00.000Z'')])]
       ''Session repaired and imported (1 fixes applied)''"
proof -
  have n: "show_nat 0 = ''0''" "show_nat 1 = ''1''" "show_nat 2000 = ''2000''"
    "show_nat (Suc 0) = ''1''"
    by code_simp+
  have v: "validateSession (sample_venv 2000)
     (JObj [(''id'', JStr ''1''), (''startTime'', JNum 5),
            (''pages'', JArr [JObj [(''url'', JStr ''u''), (''timestamp'', JNum 5),
                                    (''actions'', JArr [])]])])
     = \<lparr>isValid = False, vissues = [''Page 0: Missing required field: title''],
        vwarnings = [], canRepair = True\<rparr>"
    by (simp add: validateSession_def validateStructure_def validatePage_def validateActions_def
        add_issue_def canRepairSession_def sample_venv_def year_ms_def n Let_def)
  have r: "repairSession (sample_venv 2000)
             [(''id'', JStr ''1''), (''startTime'', JNum 5),
              (''pages'', JArr [JObj [(''url'', JStr ''u''), (''timestamp'', JNum 5),
                                      (''actions'', JArr [])]])]
           = ([(''id'', JStr ''1''), (''startTime'', JNum 5),
               (''pages'', JArr [JObj [(''url'', JStr ''u''), (''timestamp'', JNum 5),
                                       (''actions'', JArr []), (''title'', JStr ''Page 1'')]])],
              [''Generated missing title for page 0''])"
    by (simp add: repairSession_def repairPage_def fill_key_def n Let_def)
  show ?thesis
    by (simp add: importSession_def v r Let_def) (simp add: sample_venv_def n)
qed

section \<open>The playback scheduler\<close>

text \<open>
  A session handed to playback: \<open>pages\<close> and the legacy \<open>actions\<close> list, each absent or
  present. The visual overlay and the indicators only decorate the page and are left
  out; for an action with coordinates they do not throw.
\<close>

record psession =
  spages :: "page list option"
  sactions :: "action list option"

text \<open>What the scheduler has set up to run later, apart from its own playback timer.\<close>

datatype callback =
    StartPlaying
  | ContinuePlaying
  | ExecuteFrame action
  | RetryExecute action
  | RetryFind action

datatype timer_kind = PlayNext | MoveNext

text \<open>What a run leaves behind: console warnings, dispatched effects, messages.\<close>

datatype play_event =
    TargetNotFound string
  | TargetStillNotFound string
  | NoElementToClick
  | NoElementToDoubleClick
  | CannotSimulateInput
  | NotImplemented string
  | ExecutionError
  | InvalidSessionFormat
  | Clicked "nat resolved"
  | DoubleClicked "nat resolved"
  | KeyDispatched string
  | InputSet nat
  | Scrolled point
  | MouseDispatched "nat resolved"
  | SubmitDispatched nat
  | StateStored nat nat
  | NavigatedTo string
  | MessageSent string

record player =
  playbackSession :: "psession option"
  playbackPageIndex :: nat
  playbackActionIndex :: nat
  currentPlaybackPage :: "page option"
  isPlaybackPaused :: bool
  playbackTimeoutId :: "(int \<times> timer_kind) option"
  playbackOverlay :: bool
  psettings :: settings
  pending :: "callback list"
  plog :: "play_event list"
  findLog :: "find_event list"

text \<open>
  What the page shows when a callback runs: the clock, the location, whether the
  document is still loading, the lookups of \<open>findElement\<close>, the element under the
  recorded coordinates, which elements are text fields and which have a form, and
  whether dispatching the effect throws.
\<close>

record penv =
  pnow :: int
  phref :: string
  docLoading :: bool
  lookups :: "nat dom_lookup"
  elementAtPoint :: "nat option"
  isTextField :: "nat \<Rightarrow> bool"
  hasForm :: "nat \<Rightarrow> bool"
  dispatchThrows :: bool

definition say :: "play_event list \<Rightarrow> player \<Rightarrow> player" where
  "say evs s = s\<lparr>plog := plog s @ evs\<rparr>"

definition stopPlayback :: "player \<Rightarrow> player" where
  "stopPlayback s =
     say [MessageSent ''playbackCompleted'', MessageSent ''playbackCompleted'']
       (s\<lparr>playbackTimeoutId := None, playbackOverlay := False,
          playbackActionIndex := 0, playbackPageIndex := 0, playbackSession := None,
          currentPlaybackPage := None, isPlaybackPaused := False\<rparr>)"

definition navigateToPageForPlayback :: "string \<Rightarrow> player \<Rightarrow> player" where
  "navigateToPageForPlayback u s =
     say [StateStored (playbackPageIndex s) (playbackActionIndex s), NavigatedTo u] s"

text \<open>
  \<open>moveToNextPage\<close> reads \<open>this.playbackSession.pages\<close>: with no session it throws.
\<close>

definition moveToNextPage :: "penv \<Rightarrow> player \<Rightarrow> player outcome" where
  "moveToNextPage e s =
     (case playbackSession s of
        None \<Rightarrow> Threw s
      | Some ses \<Rightarrow>
          (case spages ses of
             None \<Rightarrow> Returned (stopPlayback s)
           | Some ps \<Rightarrow>
               let s1 = s\<lparr>playbackPageIndex := playbackPageIndex s + 1\<rparr> in
               if playbackPageIndex s1 \<ge> length ps then Returned (stopPlayback s1)
               else
                 let pg = ps ! playbackPageIndex s1;
                     s2 = s1\<lparr>currentPlaybackPage := Some pg, playbackActionIndex := 0\<rparr>
                 in if phref e \<noteq> url pg
                    then Returned (navigateToPageForPlayback (url pg) s2)
                    else Returned (s2\<lparr>pending := pending s2 @ [ContinuePlaying]\<rparr>)))"

subsection \<open>Executing one action\<close>

text \<open>The effect of an action on its resolved target, as the \<open>switch\<close> dispatches it.\<close>

definition simulate :: "penv \<Rightarrow> nat resolved option \<Rightarrow> action \<Rightarrow> play_event list outcome" where
  "simulate e targetElement a =
     (if dispatchThrows e then Threw []
      else if atype a = ''click'' then
        (case (case targetElement of
                 Some el \<Rightarrow> Some el
               | None \<Rightarrow> map_option Elem (elementAtPoint e)) of
           None \<Rightarrow> Returned [NoElementToClick]
         | Some el \<Rightarrow> Returned [Clicked el])
      else if atype a = ''dblclick'' then
        (case (case targetElement of
                 Some el \<Rightarrow> Some el
               | None \<Rightarrow> map_option Elem (elementAtPoint e)) of
           None \<Rightarrow> Returned [NoElementToDoubleClick]
         | Some el \<Rightarrow> Returned [DoubleClicked el])
      else if atype a = ''keydown'' \<or> atype a = ''keyup'' \<or> atype a = ''keypress'' then
        Returned [KeyDispatched (atype a)]
      else if atype a = ''input'' \<or> atype a = ''change'' then
        (case targetElement of
           Some (Elem n) \<Rightarrow>
             if isTextField e n then Returned [InputSet n]
             else Returned [CannotSimulateInput]
         | other \<Rightarrow> Returned [CannotSimulateInput])
      else if atype a = ''scroll'' then Returned [Scrolled (scrollPosition a)]
      else if atype a = ''mousemove'' then
        (case (case targetElement of
                 Some el \<Rightarrow> Some el
               | None \<Rightarrow> map_option Elem (elementAtPoint e)) of
           None \<Rightarrow> Returned []
         | Some el \<Rightarrow> Returned [MouseDispatched el])
      else if atype a = ''submit'' then
        (case targetElement of
           None \<Rightarrow> Returned []
         | Some (Elem n) \<Rightarrow> Returned (if hasForm e n then [SubmitDispatched n] else [])
         | Some other \<Rightarrow> Threw [])
      else Returned [NotImplemented (atype a)])"

text \<open>\<open>action.target\<close> is truthy.\<close>

definition has_target :: "action \<Rightarrow> bool" where
  "has_target a = (target a \<noteq> None \<and> target a \<noteq> Some [])"

definition executeAction :: "penv \<Rightarrow> action \<Rightarrow> player \<Rightarrow> player" where
  "executeAction e a s =
     (if docLoading e then s\<lparr>pending := pending s @ [RetryExecute a]\<rparr>
      else
        let (targetElement, tr) =
              (if has_target a then findElement (psettings s) (lookups e) (target a)
               else (None, []));
            s1 = s\<lparr>findLog := findLog s @ tr\<rparr>;
            s2 = (if has_target a \<and> targetElement = None
                  then (say [TargetNotFound (case target a of Some t \<Rightarrow> t | None \<Rightarrow> [])] s1)
                         \<lparr>pending := pending s1 @ [RetryFind a]\<rparr>
                  else s1)
        in case simulate e targetElement a of
             Returned evs \<Rightarrow> say evs s2
           | Threw evs \<Rightarrow> say (evs @ [ExecutionError]) s2)"

definition executeActionWithVisualization :: "penv \<Rightarrow> action \<Rightarrow> player \<Rightarrow> player" where
  "executeActionWithVisualization e a s =
     (if atype a = ''click'' \<or> atype a = ''dblclick''
      then s\<lparr>pending := pending s @ [ExecuteFrame a]\<rparr>
      else executeAction e a s)"

subsection \<open>The loop over the actions\<close>

definition playNextAction :: "penv \<Rightarrow> player \<Rightarrow> player outcome" where
  "playNextAction e s =
     (case currentPlaybackPage s of
        None \<Rightarrow> moveToNextPage e s
      | Some pg \<Rightarrow>
          if playbackActionIndex s \<ge> length (pactions pg) then moveToNextPage e s
          else
            let a = pactions pg ! playbackActionIndex s;
                s1 = executeActionWithVisualization e a s;
                s2 = s1\<lparr>playbackActionIndex := playbackActionIndex s1 + 1\<rparr>
            in if playbackActionIndex s + 1 < length (pactions pg)
               then Returned
                      (s2\<lparr>playbackTimeoutId :=
                            Some (pnow e + timeout_ms (calculateOptimalDelay (psettings s2) a
                                                         (pactions pg ! (playbackActionIndex s + 1))),
                                  PlayNext)\<rparr>)
               else Returned (s2\<lparr>playbackTimeoutId := Some (pnow e + 800, MoveNext)\<rparr>))"

text \<open>The callback of the playback timer, once it is due.\<close>

definition playbackTimerFires :: "penv \<Rightarrow> player \<Rightarrow> player outcome" where
  "playbackTimerFires e s =
     (case playbackTimeoutId s of
        None \<Rightarrow> Returned s
      | Some (due, kind) \<Rightarrow>
          if pnow e < due then Returned s
          else
            let s0 = s\<lparr>playbackTimeoutId := None\<rparr> in
            if isPlaybackPaused s0 then Returned s0
            else (case kind of
                    PlayNext \<Rightarrow> playNextAction e s0
                  | MoveNext \<Rightarrow> moveToNextPage e s0))"

text \<open>
  \<open>startPlayback\<close>, with the session already put in \<open>playbackSession\<close> by the message
  listener. Starting the playback metrics clears the detection counters.
\<close>

definition startPlayback :: "penv \<Rightarrow> player \<Rightarrow> player" where
  "startPlayback e s =
     (case playbackSession s of
        None \<Rightarrow> s
      | Some ses \<Rightarrow>
          let s0 = s\<lparr>playbackOverlay := False, isPlaybackPaused := False\<rparr>;
              ready = (\<lambda>s'. s'\<lparr>findLog := [], pending := pending s' @ [StartPlaying]\<rparr>)
          in case spages ses of
               Some (pg # ps) \<Rightarrow>
                 let s1 = s0\<lparr>playbackPageIndex := 0, playbackActionIndex := 0,
                            currentPlaybackPage := Some pg\<rparr>
                 in if phref e \<noteq> url pg then navigateToPageForPlayback (url pg) s1
                    else ready s1
             | other \<Rightarrow>
                 (case sactions ses of
                    Some acts \<Rightarrow>
                      ready (s0\<lparr>currentPlaybackPage :=
                                   Some \<lparr>url = phref e, title = [], ptimestamp = 0,
                                         endTime = None, pactions = acts\<rparr>,
                                 playbackActionIndex := 0\<rparr>)
                  | None \<Rightarrow> say [InvalidSessionFormat] s0))"

text \<open>
  Running the first of the callbacks set up for later: the continuation of the page-ready
  wait, an animation frame, or a retry timer.
\<close>

definition runPending :: "penv \<Rightarrow> player \<Rightarrow> player outcome" where
  "runPending e s =
     (case pending s of
        [] \<Rightarrow> Returned s
      | cb # rest \<Rightarrow>
          let s0 = s\<lparr>pending := rest\<rparr> in
          (case cb of
             StartPlaying \<Rightarrow> playNextAction e (s0\<lparr>playbackOverlay := True\<rparr>)
           | ContinuePlaying \<Rightarrow> playNextAction e s0
           | ExecuteFrame a \<Rightarrow> Returned (executeAction e a s0)
           | RetryExecute a \<Rightarrow> Returned (executeAction e a s0)
           | RetryFind a \<Rightarrow>
               (case findElement (psettings s0) (lookups e) (target a) of
                  (r, tr) \<Rightarrow>
                    Returned
                      ((if r = None
                        then say [TargetStillNotFound (case target a of Some t \<Rightarrow> t | None \<Rightarrow> [])]
                        else (\<lambda>x. x))
                         (s0\<lparr>findLog := findLog s0 @ tr\<rparr>)))))"

definition newPlayer :: player where
  "newPlayer =
     \<lparr>playbackSession = None, playbackPageIndex = 0, playbackActionIndex = 0,
      currentPlaybackPage = None, isPlaybackPaused = False, playbackTimeoutId = None,
      playbackOverlay = False, psettings = defaultSettings, pending = [], plog = [],
      findLog = []\<rparr>"

definition togglePauseResume :: "penv \<Rightarrow> player \<Rightarrow> player outcome" where
  "togglePauseResume e s =
     (if isPlaybackPaused s then playNextAction e (s\<lparr>isPlaybackPaused := False\<rparr>)
      else Returned (s\<lparr>isPlaybackPaused := True, playbackTimeoutId := None\<rparr>))"

text \<open>Running up to \<open>n\<close> of the callbacks set up for later, in the order set up.\<close>

fun runPendingN :: "nat \<Rightarrow> penv \<Rightarrow> player \<Rightarrow> player outcome" where
  "runPendingN 0 e s = Returned s"
| "runPendingN (Suc n) e s =
     (if pending s = [] then Returned s
      else case runPending e s of
             Returned s' \<Rightarrow> runPendingN n e s'
           | Threw s' \<Rightarrow> Threw s')"

text \<open>
  A replay from \<open>startPlayback\<close> on: the callbacks set up for later, then the playback
  timer.
\<close>

definition replay :: "penv \<Rightarrow> penv \<Rightarrow> penv \<Rightarrow> player \<Rightarrow> player outcome" where
  "replay e0 e1 e2 s =
     (case runPendingN 3 e1 (startPlayback e0 s) of
        Returned s' \<Rightarrow> playbackTimerFires e2 s'
      | Threw s' \<Rightarrow> Threw s')"

text \<open>What the executor does for an action whose target was not resolved.\<close>

definition unresolved_effects :: "penv \<Rightarrow> action \<Rightarrow> play_event list" where
  "unresolved_effects e a =
     (case simulate e None a of Returned evs \<Rightarrow> evs | Threw evs \<Rightarrow> evs @ [ExecutionError])"

fun is_effect :: "play_event \<Rightarrow> bool" where
  "is_effect (Clicked el) = True"
| "is_effect (DoubleClicked el) = True"
| "is_effect (KeyDispatched k) = True"
| "is_effect (InputSet n) = True"
| "is_effect (Scrolled p) = True"
| "is_effect (MouseDispatched el) = True"
| "is_effect (SubmitDispatched n) = True"
| "is_effect other = False"

definition single_action_session :: "page \<Rightarrow> psession" where
  "single_action_session pg = \<lparr>spages = Some [pg], sactions = None\<rparr>"

subsection \<open>Claim about replaying an action whose target is gone\<close>

lemma runPendingN_step:
  "pending s \<noteq> [] \<Longrightarrow> runPending e s = Returned s' \<Longrightarrow>
   runPendingN (Suc n) e s = runPendingN n e s'"
  by simp

lemma runPendingN_done: "pending s = [] \<Longrightarrow> runPendingN n e s = Returned s"
  by (cases n) simp_all

lemma executeAction_unresolved:
  assumes "has_target a" "\<not> docLoading e" "target a = Some sel"
    and "findElement (psettings st) (lookups e) (Some sel) = (None, tr)"
  shows "executeAction e a st
           = st\<lparr>findLog := findLog st @ tr,
                plog := plog st @ [TargetNotFound sel] @ unresolved_effects e a,
                pending := pending st @ [RetryFind a]\<rparr>"
  using assms
  by (cases "simulate e None a")
    (simp_all add: executeAction_def unresolved_effects_def say_def Let_def)

lemma replay_unresolved_run:
  assumes ses: "playbackSession s = Some (single_action_session pg)"
    and acts: "pactions pg = [a]"
    and here: "url pg = phref e0"
    and tgt: "target a = Some sel" "sel \<noteq> []"
    and ready: "\<not> docLoading e1"
    and nf: "findElement (psettings s) (lookups e1) (Some sel) = (None, tr)"
    and idle: "pending s = []"
    and due: "pnow e1 + 800 \<le> pnow e2"
  shows "replay e0 e1 e2 s
           = Returned
               (s\<lparr>playbackSession := None, playbackPageIndex := 0, playbackActionIndex := 0,
                  currentPlaybackPage := None, isPlaybackPaused := False,
                  playbackTimeoutId := None, playbackOverlay := False, pending := [],
                  plog := plog s @ [TargetNotFound sel] @ unresolved_effects e1 a
                          @ [TargetStillNotFound sel, MessageSent ''playbackCompleted'',
                             MessageSent ''playbackCompleted''],
                  findLog := tr @ tr\<rparr>)"
proof -
  have ht: "has_target a" using tgt by (simp add: has_target_def)
  let ?s1 = "s\<lparr>playbackOverlay := False, isPlaybackPaused := False, playbackPageIndex := 0,
               playbackActionIndex := 0, currentPlaybackPage := Some pg, findLog := [],
               pending := [StartPlaying]\<rparr>"
  have start: "startPlayback e0 s = ?s1"
    using ses here idle by (simp add: startPlayback_def single_action_session_def Let_def)
  let ?s2 = "?s1\<lparr>pending := [], playbackOverlay := True\<rparr>"
  let ?exec = "\<lambda>st. st\<lparr>findLog := findLog st @ tr,
                plog := plog st @ [TargetNotFound sel] @ unresolved_effects e1 a,
                pending := pending st @ [RetryFind a]\<rparr>"
  have exec: "executeAction e1 a st = ?exec st" if "psettings st = psettings s" for st
    using executeAction_unresolved [OF ht ready tgt(1), of st tr] nf that by simp
  let ?s4 = "s\<lparr>playbackOverlay := True, isPlaybackPaused := False, playbackPageIndex := 0,
               playbackActionIndex := 1, currentPlaybackPage := Some pg,
               playbackTimeoutId := Some (pnow e1 + 800, MoveNext),
               findLog := tr @ tr,
               plog := plog s @ [TargetNotFound sel] @ unresolved_effects e1 a
                       @ [TargetStillNotFound sel],
               pending := []\<rparr>"
  have drained: "runPendingN 3 e1 ?s1 = Returned ?s4"
  proof (cases "atype a = ''click'' \<or> atype a = ''dblclick''")
    case True
    let ?s3 = "?s2\<lparr>pending := [ExecuteFrame a], playbackActionIndex := 1,
                 playbackTimeoutId := Some (pnow e1 + 800, MoveNext)\<rparr>"
    have p1: "runPending e1 ?s1 = Returned ?s3"
      using True acts
      by (simp add: runPending_def playNextAction_def executeActionWithVisualization_def Let_def)
    have p2: "runPending e1 ?s3 = Returned (?exec (?s3\<lparr>pending := []\<rparr>))"
      by (simp add: runPending_def Let_def exec)
    have p3: "runPending e1 (?exec (?s3\<lparr>pending := []\<rparr>)) = Returned ?s4"
      using nf tgt by (simp add: runPending_def Let_def say_def)
    have "runPendingN (Suc (Suc (Suc 0))) e1 ?s1 = runPendingN (Suc (Suc 0)) e1 ?s3"
      by (rule runPendingN_step [OF _ p1]) simp
    also have "\<dots> = runPendingN (Suc 0) e1 (?exec (?s3\<lparr>pending := []\<rparr>))"
      by (rule runPendingN_step [OF _ p2]) simp
    also have "\<dots> = runPendingN 0 e1 ?s4"
      by (rule runPendingN_step [OF _ p3]) simp
    finally show ?thesis by (simp add: eval_nat_numeral)
  next
    case False
    let ?s3 = "(?exec ?s2)\<lparr>playbackActionIndex := 1,
                 playbackTimeoutId := Some (pnow e1 + 800, MoveNext)\<rparr>"
    have p1: "runPending e1 ?s1 = Returned ?s3"
      using False acts
      by (simp add: runPending_def playNextAction_def executeActionWithVisualization_def Let_def
          exec)
    have p3: "runPending e1 ?s3 = Returned ?s4"
      using nf tgt by (simp add: runPending_def Let_def say_def)
    have "runPendingN (Suc (Suc (Suc 0))) e1 ?s1 = runPendingN (Suc (Suc 0)) e1 ?s3"
      by (rule runPendingN_step [OF _ p1]) simp
    also have "\<dots> = runPendingN (Suc 0) e1 ?s4"
      by (rule runPendingN_step [OF _ p3]) simp
    also have "\<dots> = Returned ?s4"
      by (rule runPendingN_done) simp
    finally show ?thesis by (simp add: eval_nat_numeral)
  qed
  have fin: "playbackTimerFires e2 ?s4
           = Returned
               (s\<lparr>playbackSession := None, playbackPageIndex := 0, playbackActionIndex := 0,
                  currentPlaybackPage := None, isPlaybackPaused := False,
                  playbackTimeoutId := None, playbackOverlay := False, pending := [],
                  plog := plog s @ [TargetNotFound sel] @ unresolved_effects e1 a
                          @ [TargetStillNotFound sel, MessageSent ''playbackCompleted'',
                             MessageSent ''playbackCompleted''],
                  findLog := tr @ tr\<rparr>)"
    using due ses
    by (simp add: playbackTimerFires_def moveToNextPage_def stopPlayback_def say_def Let_def
        single_action_session_def)
  show "replay e0 e1 e2 s
           = Returned
               (s\<lparr>playbackSession := None, playbackPageIndex := 0, playbackActionIndex := 0,
                  currentPlaybackPage := None, isPlaybackPaused := False,
                  playbackTimeoutId := None, playbackOverlay := False, pending := [],
                  plog := plog s @ [TargetNotFound sel] @ unresolved_effects e1 a
                          @ [TargetStillNotFound sel, MessageSent ''playbackCompleted'',
                             MessageSent ''playbackCompleted''],
                  findLog := tr @ tr\<rparr>)"
    unfolding replay_def start drained by (simp only: outcome.case fin)
qed


lemma retryLoop_none_counted:
  "fst (retryLoop d S M r) = None \<Longrightarrow> Detection False \<in> set (snd (retryLoop d S M r))"
proof (induction d S M r rule: retryLoop.induct)
  case (1 d S M r)
  show ?case
  proof (cases "int r < M")
    case False
    then show ?thesis by (subst retryLoop.simps) simp
  next
    case True
    obtain res tr where t: "tryStrategies d S r = (res, tr)" by (cases "tryStrategies d S r")
    show ?thesis
    proof (cases res)
      case (Some el)
      then have "fst (retryLoop d S M r) = Some el"
        using True t by (subst retryLoop.simps) simp
      with "1.prems" show ?thesis by simp
    next
      case None
      have none': "fst (retryLoop d S M (Suc r)) = None"
        using "1.prems" True t None
        by (subst (asm) retryLoop.simps) (simp add: Let_def case_prod_beta)
      have ih: "Detection False \<in> set (snd (retryLoop d S M (Suc r)))"
        using "1.IH" [OF True _ None refl] t None none' by simp
      show ?thesis
        using True t None ih
        by (subst retryLoop.simps) (auto simp: Let_def case_prod_beta)
    qed
  qed
qed

lemma findElement_none_counted:
  assumes "findElement st d (Some sel) = (None, tr)" "sel \<noteq> []"
  shows "Detection False \<in> set tr"
proof -
  have ns: "sel \<noteq> ''document''" "sel \<noteq> ''window''"
    using assms by (auto simp: findElement_def)
  obtain r tr' where l: "retryLoop d (strategies_for (elementDetection st)) (maxRetries st) 0 = (r, tr')"
    by (cases "retryLoop d (strategies_for (elementDetection st)) (maxRetries st) 0")
  have "r = None \<and> Detection False \<in> set tr' \<and> set tr' \<subseteq> set tr"
  proof (cases "directQuery d")
    case (Found el)
    with assms ns show ?thesis by (simp add: findElement_def)
  next
    case NotFound
    with assms ns l have "r = None" "set tr' \<subseteq> set tr" by (auto simp: findElement_def)
    moreover from \<open>r = None\<close> l have "Detection False \<in> set tr'"
      using retryLoop_none_counted [of d "strategies_for (elementDetection st)" "maxRetries st" 0]
      by simp
    ultimately show ?thesis by simp
  next
    case Throws
    with assms ns l have "r = None" "set tr' \<subseteq> set tr" by (auto simp: findElement_def)
    moreover from \<open>r = None\<close> l have "Detection False \<in> set tr'"
      using retryLoop_none_counted [of d "strategies_for (elementDetection st)" "maxRetries st" 0]
      by simp
    ultimately show ?thesis by simp
  qed
  then show ?thesis by auto
qed

text \<open>
  Claim C6, as amended. Take a session of one page with one action, on the page it was
  recorded on, whose target \<open>findElement\<close> does not resolve. The replay does not throw.
  It warns that the target was not found, counts the failed detection, runs the
  executor without a target, warns again after the retry, and when the playback timer
  fires, 800ms or more later, it stops: the completion message is sent and the playback
  state is cleared. Without a target an input, change or submit action dispatches
  nothing; the other kinds do what the executor does with no target.
\<close>

theorem replay_unresolved_target_completes:
  assumes ses: "playbackSession s = Some (single_action_session pg)"
    and acts: "pactions pg = [a]"
    and here: "url pg = phref e0"
    and tgt: "target a = Some sel" "sel \<noteq> []"
    and ready: "\<not> docLoading e1"
    and nf: "findElement (psettings s) (lookups e1) (Some sel) = (None, tr)"
    and idle: "pending s = []"
    and due: "pnow e1 + 800 \<le> pnow e2"
  shows "replay e0 e1 e2 s
           = Returned
               (s\<lparr>playbackSession := None, playbackPageIndex := 0, playbackActionIndex := 0,
                  currentPlaybackPage := None, isPlaybackPaused := False,
                  playbackTimeoutId := None, playbackOverlay := False, pending := [],
                  plog := plog s @ [TargetNotFound sel] @ unresolved_effects e1 a
                          @ [TargetStillNotFound sel, MessageSent ''playbackCompleted'',
                             MessageSent ''playbackCompleted''],
                  findLog := tr @ tr\<rparr>)
       \<and> Detection False \<in> set tr
       \<and> (if atype a = ''input'' \<or> atype a = ''change'' \<or> atype a = ''submit''
          then filter is_effect (unresolved_effects e1 a) = []
          else True)"
proof (intro conjI)
  show "replay e0 e1 e2 s
           = Returned
               (s\<lparr>playbackSession := None, playbackPageIndex := 0, playbackActionIndex := 0,
                  currentPlaybackPage := None, isPlaybackPaused := False,
                  playbackTimeoutId := None, playbackOverlay := False, pending := [],
                  plog := plog s @ [TargetNotFound sel] @ unresolved_effects e1 a
                          @ [TargetStillNotFound sel, MessageSent ''playbackCompleted'',
                             MessageSent ''playbackCompleted''],
                  findLog := tr @ tr\<rparr>)"
    using assms by (rule replay_unresolved_run)
  show "Detection False \<in> set tr"
    using nf tgt(2) by (rule findElement_none_counted)
  show "if atype a = ''input'' \<or> atype a = ''change'' \<or> atype a = ''submit''
          then filter is_effect (unresolved_effects e1 a) = []
          else True"
    by (auto simp: unresolved_effects_def simulate_def)
qed

text \<open>A page on which nothing is found, a player holding a one-action session.\<close>

definition sample_penv :: "int \<Rightarrow> penv" where
  "sample_penv t =
     \<lparr>pnow = t, phref = ''https://example.test/'', docLoading = False,
      lookups = page_without_match, elementAtPoint = None, isTextField = (\<lambda>n. False),
      hasForm = (\<lambda>n. False), dispatchThrows = False\<rparr>"

definition sample_player :: "string \<Rightarrow> player" where
  "sample_player ty =
     newPlayer\<lparr>playbackSession :=
        Some (single_action_session
                \<lparr>url = ''https://example.test/'', title = ''Example'', ptimestamp = 0,
                 endTime = None, pactions = [sample_action ty 0 ''#gone'']\<rparr>)\<rparr>"

lemma gone_unresolved:
  "fst (findElement defaultSettings page_without_match (Some ''#gone'')) = None"
  by (simp add: findElement_def page_without_match_def strategies_for_def defaultSettings_def
      retryLoop.simps)

theorem replay_unresolved_target_completes_witness:
  "playbackSession (outcome_state (replay (sample_penv 0) (sample_penv 10) (sample_penv 900)
       (sample_player ''input''))) = None
   \<and> plog (outcome_state (replay (sample_penv 0) (sample_penv 10) (sample_penv 900)
       (sample_player ''input'')))
     = [TargetNotFound ''#gone'', CannotSimulateInput, TargetStillNotFound ''#gone'',
        MessageSent ''playbackCompleted'', MessageSent ''playbackCompleted'']"
proof -
  obtain tr where nf: "findElement (psettings (sample_player ''input''))
                          (lookups (sample_penv 10)) (Some ''#gone'') = (None, tr)"
    using gone_unresolved
    by (cases "findElement defaultSettings page_without_match (Some ''#gone'')")
      (simp add: sample_player_def newPlayer_def sample_penv_def)
  have eff: "unresolved_effects (sample_penv 10) (sample_action ''input'' 0 ''#gone'')
               = [CannotSimulateInput]"
    by (simp add: unresolved_effects_def simulate_def sample_penv_def sample_action_def)
  note t = replay_unresolved_target_completes [OF _ _ _ _ _ _ nf, THEN conjunct1]
  have "replay (sample_penv 0) (sample_penv 10) (sample_penv 900) (sample_player ''input'')
          = Returned
              ((sample_player ''input'')
                 \<lparr>playbackSession := None, playbackPageIndex := 0, playbackActionIndex := 0,
                  currentPlaybackPage := None, isPlaybackPaused := False,
                  playbackTimeoutId := None, playbackOverlay := False, pending := [],
                  plog := plog (sample_player ''input'') @ [TargetNotFound ''#gone'']
                          @ unresolved_effects (sample_penv 10) (sample_action ''input'' 0 ''#gone'')
                          @ [TargetStillNotFound ''#gone'', MessageSent ''playbackCompleted'',
                             MessageSent ''playbackCompleted''],
                  findLog := tr @ tr\<rparr>)"
    by (rule t) (simp add: sample_player_def newPlayer_def sample_penv_def sample_action_def)+
  then show ?thesis
    by (simp add: eff) (simp add: sample_player_def newPlayer_def)
qed

text \<open>
  Claim C6, as stated, has the action skipped. A keydown whose target is not found is
  still dispatched, to the focused element.
\<close>

theorem unresolved_keydown_still_dispatched_counterexample:
  "filter is_effect
     (plog (outcome_state (replay (sample_penv 0) (sample_penv 10) (sample_penv 900)
        (sample_player ''keydown''))))
     = [KeyDispatched ''keydown'']
   \<and> fst (findElement defaultSettings page_without_match (Some ''#gone'')) = None"
proof -
  obtain tr where nf: "findElement (psettings (sample_player ''keydown''))
                          (lookups (sample_penv 10)) (Some ''#gone'') = (None, tr)"
    using gone_unresolved
    by (cases "findElement defaultSettings page_without_match (Some ''#gone'')")
      (simp add: sample_player_def newPlayer_def sample_penv_def)
  have eff: "unresolved_effects (sample_penv 10) (sample_action ''keydown'' 0 ''#gone'')
               = [KeyDispatched ''keydown'']"
    by (simp add: unresolved_effects_def simulate_def sample_penv_def sample_action_def)
  note t = replay_unresolved_run [OF _ _ _ _ _ _ nf]
  have "replay (sample_penv 0) (sample_penv 10) (sample_penv 900) (sample_player ''keydown'')
          = Returned
              ((sample_player ''keydown'')
                 \<lparr>playbackSession := None, playbackPageIndex := 0, playbackActionIndex := 0,
                  currentPlaybackPage := None, isPlaybackPaused := False,
                  playbackTimeoutId := None, playbackOverlay := False, pending := [],
                  plog := plog (sample_player ''keydown'') @ [TargetNotFound ''#gone'']
                          @ unresolved_effects (sample_penv 10) (sample_action ''keydown'' 0 ''#gone'')
                          @ [TargetStillNotFound ''#gone'', MessageSent ''playbackCompleted'',
                             MessageSent ''playbackCompleted''],
                  findLog := tr @ tr\<rparr>)"
    by (rule t) (simp add: sample_player_def newPlayer_def sample_penv_def sample_action_def)+
  then show ?thesis
    using gone_unresolved by (simp add: eff) (simp add: sample_player_def newPlayer_def)
qed

end
